theory Spec2Isabelle
  imports Complex_Main
begin

section \<open>Python strings\<close>

text \<open>
  A Python \<open>str\<close> is a sequence of Unicode code points: a list of natural numbers.
  \<open>str_of\<close> writes an ASCII literal as such a list.
\<close>

type_synonym str = "nat list"

definition str_of :: "string \<Rightarrow> str" where
  "str_of s = map of_char s"

text \<open>
  Python classifies characters by the Unicode character database of its build. On the
  ASCII range the classes are fixed, and written out below. Beyond ASCII they are what
  the database says, and the database is a parameter \<open>u\<close> of every function that reads
  it:
  \<^item> \<open>space_beyond\<close>, \<open>alpha_beyond\<close>, \<open>digit_beyond\<close>, \<open>upper_beyond\<close>: \<open>isspace\<close>,
    \<open>isalpha\<close>, \<open>isdigit\<close> and \<open>isupper\<close> of a character;
  \<^item> \<open>word_beyond\<close>: the class \<open>\w\<close> of regular expressions;
  \<^item> \<open>lower_beyond\<close>: \<open>lower\<close> of a string that holds a character beyond ASCII (the
    lower-casing of Unicode is not character by character);
  \<^item> \<open>fold_beyond p c\<close>: whether the character \<open>c\<close> of a text matches the character
    \<open>p\<close> of a pattern under \<open>re.IGNORECASE\<close>, when one of the two is beyond ASCII.
\<close>

record unicode =
  space_beyond :: "nat \<Rightarrow> bool"
  alpha_beyond :: "nat \<Rightarrow> bool"
  digit_beyond :: "nat \<Rightarrow> bool"
  upper_beyond :: "nat \<Rightarrow> bool"
  word_beyond :: "nat \<Rightarrow> bool"
  lower_beyond :: "str \<Rightarrow> str"
  fold_beyond :: "nat \<Rightarrow> nat \<Rightarrow> bool"

definition is_ascii :: "nat \<Rightarrow> bool" where
  "is_ascii c = (c < 128)"

definition ascii_capital :: "nat \<Rightarrow> bool" where
  "ascii_capital c = (65 \<le> c \<and> c \<le> 90)"

definition ascii_letter :: "nat \<Rightarrow> bool" where
  "ascii_letter c = ((65 \<le> c \<and> c \<le> 90) \<or> (97 \<le> c \<and> c \<le> 122))"

definition ascii_lower :: "nat \<Rightarrow> nat" where
  "ascii_lower c = (if ascii_capital c then c + 32 else c)"

definition isspace :: "unicode \<Rightarrow> nat \<Rightarrow> bool" where
  "isspace u c =
     (if is_ascii c then (9 \<le> c \<and> c \<le> 13) \<or> (28 \<le> c \<and> c \<le> 32) else space_beyond u c)"


definition isdigit :: "unicode \<Rightarrow> nat \<Rightarrow> bool" where
  "isdigit u c = (if is_ascii c then 48 \<le> c \<and> c \<le> 57 else digit_beyond u c)"

definition isalpha_char :: "unicode \<Rightarrow> nat \<Rightarrow> bool" where
  "isalpha_char u c = (if is_ascii c then ascii_letter c else alpha_beyond u c)"

text \<open>\<open>word.lower()\<close>\<close>

definition lower :: "unicode \<Rightarrow> str \<Rightarrow> str" where
  "lower u w = (if list_all is_ascii w then map ascii_lower w else lower_beyond u w)"

text \<open>\<open>word.isalpha()\<close>: at least one character, and all of them letters.\<close>

definition isalpha :: "unicode \<Rightarrow> str \<Rightarrow> bool" where
  "isalpha u w = (w \<noteq> [] \<and> list_all (isalpha_char u) w)"

text \<open>
  \<open>text.split()\<close> with no argument: the maximal runs of characters that are not white
  space, in order. \<open>cur\<close> is the token being read.
\<close>

fun split_from :: "unicode \<Rightarrow> str \<Rightarrow> str \<Rightarrow> str list" where
  "split_from u cur [] = (if cur = [] then [] else [cur])"
| "split_from u cur (c # cs) =
     (if isspace u c then (if cur = [] then split_from u [] cs else cur # split_from u [] cs)
      else split_from u (cur @ [c]) cs)"

definition split :: "unicode \<Rightarrow> str \<Rightarrow> str list" where
  "split u text = split_from u [] text"

text \<open>\<open>" ".join(words)\<close>; 32 is the space.\<close>

fun join :: "str list \<Rightarrow> str" where
  "join [] = []"
| "join [w] = w"
| "join (w # v # ws) = w @ 32 # join (v # ws)"

section \<open>Stopword removal\<close>

text \<open>
  \<open>remove_stopwords_from_text\<close>: the loop appends each token whose lower-cased form is
  not in \<open>stopwords\<close> to \<open>clean_words\<close>. \<open>stopwords\<close> is the list that
  \<open>read_stopwords\<close> returns; \<open>in\<close> on a list is membership by string equality.
\<close>

fun remove_loop :: "unicode \<Rightarrow> str list \<Rightarrow> str list \<Rightarrow> str list \<Rightarrow> str list" where
  "remove_loop u [] stopwords clean_words = clean_words"
| "remove_loop u (word # words) stopwords clean_words =
     (if lower u word \<notin> set stopwords
      then remove_loop u words stopwords (clean_words @ [word])
      else remove_loop u words stopwords clean_words)"

definition remove_stopwords_from_text :: "unicode \<Rightarrow> str \<Rightarrow> str list \<Rightarrow> str" where
  "remove_stopwords_from_text u text stopwords =
     join (remove_loop u (split u text) stopwords [])"

text \<open>
  The stopword remover as the specification words it: split on white space, keep the
  tokens whose lower-cased form is not a stopword, join with single spaces.
\<close>

definition removeStopwords_spec :: "unicode \<Rightarrow> str \<Rightarrow> str list \<Rightarrow> str" where
  "removeStopwords_spec u text stopwords =
     join (filter (\<lambda>token. lower u token \<notin> set stopwords) (split u text))"

text \<open>A token: at least one character, none of them white space.\<close>

definition is_token :: "unicode \<Rightarrow> str \<Rightarrow> bool" where
  "is_token u w = (w \<noteq> [] \<and> list_all (\<lambda>c. \<not> isspace u c) w)"


section \<open>Errors and numbers\<close>

text \<open>
  The exceptions the analysis can raise. Python's \<open>int\<close> is \<open>int\<close>; a Python
  \<open>float\<close> is modelled as a \<open>real\<close>, so the rounding error of binary floating point is
  not part of this model. \<open>a / b\<close> on two ints is true division and raises on a zero
  divisor.
\<close>

datatype py_error = IndexError | ZeroDivisionError

definition truediv :: "int \<Rightarrow> int \<Rightarrow> py_error + real" where
  "truediv a b = (if b = 0 then Inl ZeroDivisionError else Inr (real_of_int a / real_of_int b))"

text \<open>Sequencing: an exception raised by the first computation ends the whole one.\<close>

definition and_then :: "py_error + 'a \<Rightarrow> ('a \<Rightarrow> py_error + 'b) \<Rightarrow> py_error + 'b" where
  "and_then m f = (case m of Inl e \<Rightarrow> Inl e | Inr x \<Rightarrow> f x)"

text \<open>
  \<open>round(x, 3)\<close>: to the nearest multiple of one thousandth, a tie going to the even
  neighbour.
\<close>

definition round_half_even :: "real \<Rightarrow> int" where
  "round_half_even y =
     (let f = \<lfloor>y\<rfloor>; d = y - of_int f
      in if d < 1 / 2 then f else if 1 / 2 < d then f + 1 else if even f then f else f + 1)"

definition round3 :: "real \<Rightarrow> real" where
  "round3 x = of_int (round_half_even (x * 1000)) / 1000"

section \<open>Syllables\<close>

text \<open>
  \<open>pronunciation_dict\<close> is the module's global: \<open>cmudict.dict()\<close>, or \<open>{}\<close> when the
  corpus could not be loaded. It maps a word to a list of transcriptions, each a list of
  phoneme symbols. It is a parameter of every function that reads it.
\<close>

type_synonym pron_dict = "str \<rightharpoonup> str list list"

definition vowels :: str where
  "vowels = str_of ''aeiouy''"

text \<open>The fallback loop, with its two variables \<open>count\<close> and \<open>prev_was_vowel\<close>.\<close>

fun vowel_loop :: "str \<Rightarrow> int \<Rightarrow> bool \<Rightarrow> int" where
  "vowel_loop [] count prev_was_vowel = count"
| "vowel_loop (char # rest) count prev_was_vowel =
     (if char \<in> set vowels
      then vowel_loop rest (if \<not> prev_was_vowel then count + 1 else count) True
      else vowel_loop rest count False)"

text \<open>
  \<open>[sound for sound in variant if sound[-1].isdigit()]\<close>; \<open>sound[-1]\<close> raises on an
  empty string.
\<close>

fun stressed :: "unicode \<Rightarrow> str list \<Rightarrow> py_error + str list" where
  "stressed u [] = Inr []"
| "stressed u (sound # rest) =
     (if sound = [] then Inl IndexError
      else and_then (stressed u rest)
             (\<lambda>kept. Inr (if isdigit u (last sound) then sound # kept else kept)))"

definition count_syllables :: "unicode \<Rightarrow> pron_dict \<Rightarrow> str \<Rightarrow> py_error + int" where
  "count_syllables u pronunciation_dict word =
     (let word = lower u word
      in case pronunciation_dict word of
           Some variants \<Rightarrow>
             (case variants of
                [] \<Rightarrow> Inl IndexError
              | first # _ \<Rightarrow> and_then (stressed u first) (\<lambda>sounds. Inr (int (length sounds))))
         | None \<Rightarrow> Inr (max 1 (vowel_loop word 0 False)))"

text \<open>
  A dictionary as the corpus provides it: every entry has at least one transcription,
  and no phoneme symbol of a first transcription is the empty string.
\<close>

definition well_formed_dict :: "pron_dict \<Rightarrow> bool" where
  "well_formed_dict d =
     (\<forall>w variants. d w = Some variants \<longrightarrow>
        variants \<noteq> [] \<and> (\<forall>sound \<in> set (hd variants). sound \<noteq> []))"

text \<open>
  The fallback heuristic as the specification words it: the number of maximal runs of
  vowel characters, that is the number of positions holding a vowel that no vowel
  precedes.
\<close>

definition is_vowel :: "nat \<Rightarrow> bool" where
  "is_vowel c = (c \<in> of_char ` {CHR ''a'', CHR ''e'', CHR ''i'', CHR ''o'', CHR ''u'', CHR ''y''})"

definition run_starts :: "str \<Rightarrow> nat list" where
  "run_starts w =
     filter (\<lambda>i. is_vowel (w ! i) \<and> (i = 0 \<or> \<not> is_vowel (w ! (i - 1)))) [0..<length w]"

definition vowel_runs :: "str \<Rightarrow> int" where
  "vowel_runs w = int (length (run_starts w))"

text \<open>
  The same positions for a word read from the middle on: \<open>prev\<close> says whether the
  character in front of the word is a vowel.
\<close>

definition starts_after :: "bool \<Rightarrow> str \<Rightarrow> nat list" where
  "starts_after prev w =
     filter (\<lambda>i. is_vowel (w ! i) \<and> (if i = 0 then \<not> prev else \<not> is_vowel (w ! (i - 1))))
       [0..<length w]"

section \<open>Personal pronouns\<close>

text \<open>
  \<open>re.findall(r'\b(I|we|my|ours|us)\b', text, re.IGNORECASE)\<close>. The engine scans the
  text from left to right; at each position it tries the pattern, and after a match it
  goes on behind the matched characters. \<open>\b\<close> holds between two positions of which
  exactly one holds a word character (\<open>\w\<close>); the start and the end of the text count
  as holding none. The alternatives are tried in the order they are written. A
  character of the pattern matches one character of the text: on ASCII the same letter
  in either case, beyond ASCII what the database says.
\<close>

definition word_char :: "unicode \<Rightarrow> nat \<Rightarrow> bool" where
  "word_char u c =
     (if is_ascii c then ascii_letter c \<or> (48 \<le> c \<and> c \<le> 57) \<or> c = 95 else word_beyond u c)"

definition ignorecase_eq :: "unicode \<Rightarrow> nat \<Rightarrow> nat \<Rightarrow> bool" where
  "ignorecase_eq u p c =
     (if is_ascii p \<and> is_ascii c then ascii_lower p = ascii_lower c else fold_beyond u p c)"

definition word_boundary :: "unicode \<Rightarrow> nat option \<Rightarrow> nat option \<Rightarrow> bool" where
  "word_boundary u prev next =
     (case_option False (word_char u) prev \<noteq> case_option False (word_char u) next)"

definition pronouns :: "str list" where
  "pronouns = map str_of [''I'', ''we'', ''my'', ''ours'', ''us'']"

definition first_char :: "str \<Rightarrow> nat option" where
  "first_char s = (case s of [] \<Rightarrow> None | c # _ \<Rightarrow> Some c)"

definition match_literal :: "unicode \<Rightarrow> str \<Rightarrow> str \<Rightarrow> bool" where
  "match_literal u p s =
     (length p \<le> length s \<and> list_all2 (ignorecase_eq u) p (take (length p) s))"

text \<open>
  The group and the closing \<open>\b\<close> at the start of \<open>s\<close>: the length of the first
  alternative that matches and ends at a word boundary.
\<close>

fun match_alternatives :: "unicode \<Rightarrow> str list \<Rightarrow> nat option \<Rightarrow> str \<Rightarrow> nat option" where
  "match_alternatives u [] prev s = None"
| "match_alternatives u (p # ps) prev s =
     (if match_literal u p s \<and>
         word_boundary u (if p = [] then prev else Some (last (take (length p) s)))
           (first_char (drop (length p) s))
      then Some (length p)
      else match_alternatives u ps prev s)"

definition match_here :: "unicode \<Rightarrow> nat option \<Rightarrow> str \<Rightarrow> nat option" where
  "match_here u prev s =
     (if word_boundary u prev (first_char s) then match_alternatives u pronouns prev s else None)"

text \<open>
  The scan. \<open>skip\<close> counts the characters still covered by the last match, \<open>prev\<close>
  is the character in front of the position. The result lists the matched substrings,
  as \<open>findall\<close> does for a pattern with one group.
\<close>

fun findall_scan :: "unicode \<Rightarrow> nat \<Rightarrow> nat option \<Rightarrow> str \<Rightarrow> str list" where
  "findall_scan u skip prev [] = []"
| "findall_scan u (Suc k) prev (c # cs) = findall_scan u k (Some c) cs"
| "findall_scan u 0 prev (c # cs) =
     (case match_here u prev (c # cs) of
        Some n \<Rightarrow> take n (c # cs) # findall_scan u (n - 1) (Some c) cs
      | None \<Rightarrow> findall_scan u 0 (Some c) cs)"

definition findall_pronouns :: "unicode \<Rightarrow> str \<Rightarrow> str list" where
  "findall_pronouns u text = findall_scan u 0 None text"

text \<open>
  The pronoun count as the specification words it: the positions of the text at which
  one of the five words stands, in any case, with no word character directly in front
  of it and none directly behind it.
\<close>

definition whole_word_at :: "unicode \<Rightarrow> str \<Rightarrow> nat \<Rightarrow> str \<Rightarrow> bool" where
  "whole_word_at u text i p =
     (i + length p \<le> length text \<and>
      list_all2 (ignorecase_eq u) p (take (length p) (drop i text)) \<and>
      (i = 0 \<or> \<not> word_char u (text ! (i - 1))) \<and>
      (i + length p = length text \<or> \<not> word_char u (text ! (i + length p))))"

definition pronoun_positions :: "unicode \<Rightarrow> str \<Rightarrow> nat list" where
  "pronoun_positions u text =
     filter (\<lambda>i. list_ex (whole_word_at u text i) pronouns) [0..<length text]"

text \<open>
  The same for a text read from the middle on: \<open>prev\<close> is the character in front of
  the text, if there is one.
\<close>

definition whole_word_after :: "unicode \<Rightarrow> nat option \<Rightarrow> str \<Rightarrow> nat \<Rightarrow> str \<Rightarrow> bool" where
  "whole_word_after u prev s i p =
     (i + length p \<le> length s \<and>
      list_all2 (ignorecase_eq u) p (take (length p) (drop i s)) \<and>
      (if i = 0 then \<not> case_option False (word_char u) prev else \<not> word_char u (s ! (i - 1))) \<and>
      (i + length p = length s \<or> \<not> word_char u (s ! (i + length p))))"

definition positions_after :: "unicode \<Rightarrow> nat option \<Rightarrow> str \<Rightarrow> nat list" where
  "positions_after u prev s =
     filter (\<lambda>i. list_ex (whole_word_after u prev s i) pronouns) [0..<length s]"

text \<open>The test that \<open>match_alternatives\<close> makes for one alternative.\<close>

definition alternative_ok :: "unicode \<Rightarrow> nat option \<Rightarrow> str \<Rightarrow> str \<Rightarrow> bool" where
  "alternative_ok u prev s p =
     (match_literal u p s \<and>
      word_boundary u (if p = [] then prev else Some (last (take (length p) s)))
        (first_char (drop (length p) s)))"

text \<open>
  What is known of \<open>re.IGNORECASE\<close> beyond ASCII for the pronoun count: a character
  that stands for an ASCII letter is a letter itself, so a word character. (In Python
  these are the dotted capital I and the dotless i for the letter i, the long s for the
  letter s, and the Kelvin sign for the letter k.)
\<close>

definition folds_to_word_chars :: "unicode \<Rightarrow> bool" where
  "folds_to_word_chars u =
     (\<forall>p c. ascii_letter p \<and> \<not> is_ascii c \<and> fold_beyond u p c \<longrightarrow> word_beyond u c)"

section \<open>The metrics engine\<close>

text \<open>
  The first loop of \<open>analyze_article_text\<close>, with its two counters. The two membership
  tests are two separate \<open>if\<close> statements.
\<close>

fun sentiment_loop :: "unicode \<Rightarrow> str list \<Rightarrow> str set \<Rightarrow> str set \<Rightarrow> int \<Rightarrow> int \<Rightarrow> int \<times> int" where
  "sentiment_loop u [] positive_words negative_words positive_count negative_count =
     (positive_count, negative_count)"
| "sentiment_loop u (word # rest) positive_words negative_words positive_count negative_count =
     (let word_lower = lower u word;
          positive_count = (if word_lower \<in> positive_words then positive_count + 1 else positive_count);
          negative_count = (if word_lower \<in> negative_words then negative_count + 1 else negative_count)
      in sentiment_loop u rest positive_words negative_words positive_count negative_count)"

text \<open>The second loop, returning \<open>(complex_word_count, total_syllables)\<close>.\<close>

fun syllable_loop :: "unicode \<Rightarrow> pron_dict \<Rightarrow> str list \<Rightarrow> int \<Rightarrow> int \<Rightarrow> py_error + int \<times> int" where
  "syllable_loop u d [] complex_word_count total_syllables =
     Inr (complex_word_count, total_syllables)"
| "syllable_loop u d (word # rest) complex_word_count total_syllables =
     and_then (count_syllables u d word)
       (\<lambda>syllables. syllable_loop u d rest
          (if syllables > 2 then complex_word_count + 1 else complex_word_count)
          (total_syllables + syllables))"

text \<open>
  The local variables of \<open>analyze_article_text\<close> at the point where it builds its
  result, before any rounding.
\<close>

record analysis =
  word_count :: int
  sentence_count :: int
  positive_count :: int
  negative_count :: int
  polarity :: real
  subjectivity :: real
  avg_sentence_length :: real
  complex_word_count :: int
  total_syllables :: int
  percentage_complex :: real
  fog_index :: real
  avg_syllables_per_word :: real
  personal_pronouns :: int
  avg_word_length :: real

text \<open>
  The body of \<open>analyze_article_text\<close> up to the \<open>return\<close> statements: \<open>Inr None\<close> is
  the early \<open>return {}\<close>. The two NLTK tokenizers are parameters: \<open>sent_tokenize\<close> and
  \<open>word_tokenize\<close> are library functions whose code is not part of this program.
\<close>

definition analyze_locals ::
  "unicode \<Rightarrow> (str \<Rightarrow> str list) \<Rightarrow> (str \<Rightarrow> str list) \<Rightarrow> pron_dict \<Rightarrow>
   str \<Rightarrow> str set \<Rightarrow> str set \<Rightarrow> py_error + analysis option" where
  "analyze_locals u sent_tokenize word_tokenize pronunciation_dict text positive_words negative_words =
     (let sentences = sent_tokenize text;
          words = word_tokenize text;
          clean_words = filter (isalpha u) words;
          word_count = int (length clean_words);
          sentence_count = int (length sentences)
      in if word_count = 0 \<or> sentence_count = 0 then Inr None
         else
           (let (positive_count, negative_count) =
                  sentiment_loop u clean_words positive_words negative_words 0 0;
                total_sentiment_words = positive_count + negative_count
            in and_then
                 (if total_sentiment_words > 0
                  then and_then (truediv (positive_count - negative_count) total_sentiment_words)
                         (\<lambda>polarity. and_then (truediv total_sentiment_words word_count)
                            (\<lambda>subjectivity. Inr (polarity, subjectivity)))
                  else Inr (0, 0))
                 (\<lambda>(polarity, subjectivity).
                    and_then (truediv word_count sentence_count)
                      (\<lambda>avg_sentence_length.
                    and_then (syllable_loop u pronunciation_dict clean_words 0 0)
                      (\<lambda>(complex_word_count, total_syllables).
                    and_then (truediv complex_word_count word_count)
                      (\<lambda>ratio.
                    let percentage_complex = ratio * 100;
                        fog_index = 0.4 * (avg_sentence_length + percentage_complex)
                    in and_then (truediv total_syllables word_count)
                      (\<lambda>avg_syllables_per_word.
                    let personal_pronouns = int (length (findall_pronouns u text));
                        total_chars = sum_list (map (\<lambda>word. int (length word)) clean_words)
                    in and_then (truediv total_chars word_count)
                      (\<lambda>avg_word_length.
                    Inr (Some \<lparr>word_count = word_count, sentence_count = sentence_count,
                      positive_count = positive_count, negative_count = negative_count,
                      polarity = polarity, subjectivity = subjectivity,
                      avg_sentence_length = avg_sentence_length,
                      complex_word_count = complex_word_count,
                      total_syllables = total_syllables,
                      percentage_complex = percentage_complex, fog_index = fog_index,
                      avg_syllables_per_word = avg_syllables_per_word,
                      personal_pronouns = personal_pronouns,
                      avg_word_length = avg_word_length\<rparr>)))))))))"

text \<open>The dictionary that \<open>analyze_article_text\<close> returns, one field per key.\<close>

record metric_record =
  POSITIVE_SCORE :: int
  NEGATIVE_SCORE :: int
  POLARITY_SCORE :: real
  SUBJECTIVITY_SCORE :: real
  AVG_SENTENCE_LENGTH :: real
  PERCENTAGE_OF_COMPLEX_WORDS :: real
  FOG_INDEX :: real
  AVG_NUMBER_OF_WORDS_PER_SENTENCE :: real
  COMPLEX_WORD_COUNT :: int
  WORD_COUNT :: int
  SYLLABLE_PER_WORD :: real
  PERSONAL_PRONOUNS :: int
  AVG_WORD_LENGTH :: real

definition build_record :: "analysis \<Rightarrow> metric_record" where
  "build_record a =
     \<lparr>POSITIVE_SCORE = positive_count a,
      NEGATIVE_SCORE = negative_count a,
      POLARITY_SCORE = round3 (polarity a),
      SUBJECTIVITY_SCORE = round3 (subjectivity a),
      AVG_SENTENCE_LENGTH = round3 (avg_sentence_length a),
      PERCENTAGE_OF_COMPLEX_WORDS = round3 (percentage_complex a),
      FOG_INDEX = round3 (fog_index a),
      AVG_NUMBER_OF_WORDS_PER_SENTENCE = round3 (avg_sentence_length a),
      COMPLEX_WORD_COUNT = complex_word_count a,
      WORD_COUNT = word_count a,
      SYLLABLE_PER_WORD = round3 (avg_syllables_per_word a),
      PERSONAL_PRONOUNS = personal_pronouns a,
      AVG_WORD_LENGTH = round3 (avg_word_length a)\<rparr>"

text \<open>\<open>analyze_article_text\<close>: \<open>Inr None\<close> is the empty dictionary \<open>{}\<close>.\<close>

definition analyze_article_text ::
  "unicode \<Rightarrow> (str \<Rightarrow> str list) \<Rightarrow> (str \<Rightarrow> str list) \<Rightarrow> pron_dict \<Rightarrow>
   str \<Rightarrow> str set \<Rightarrow> str set \<Rightarrow> py_error + metric_record option" where
  "analyze_article_text u sent_tokenize word_tokenize pronunciation_dict text positive_words negative_words =
     and_then
       (analyze_locals u sent_tokenize word_tokenize pronunciation_dict text positive_words negative_words)
       (\<lambda>result. Inr (map_option build_record result))"

section \<open>Examples\<close>

text \<open>
  The database on the code points of the examples, all else left out: the no-break
  space U+00A0 is white space; the letters U+00C9 and U+00E9 (E with acute, capital and
  small) and U+1D400 (mathematical bold capital A) are alphabetic and word characters;
  the first and the last are upper case; \<open>lower\<close> maps U+00C9 to U+00E9 and leaves
  U+1D400, which has no lower-case form, as it is.
\<close>

definition sample_lower :: "nat \<Rightarrow> nat" where
  "sample_lower c = (if c = 201 then 233 else ascii_lower c)"

definition sample_unicode :: unicode where
  "sample_unicode =
     \<lparr>space_beyond = (\<lambda>c. c = 160),
      alpha_beyond = (\<lambda>c. c = 201 \<or> c = 233 \<or> c = 119808),
      digit_beyond = (\<lambda>c. False),
      upper_beyond = (\<lambda>c. c = 201 \<or> c = 119808),
      word_beyond = (\<lambda>c. c = 201 \<or> c = 233 \<or> c = 119808),
      lower_beyond = map sample_lower,
      fold_beyond = (\<lambda>p c. False)\<rparr>"

text \<open>
  Two tokenizers for running the engine on examples: a text of words separated by white
  space, with no punctuation, is one sentence, and its word tokens are its words. On
  such a text the two NLTK tokenizers return the same lists.
\<close>

definition plain_sent_tokenize :: "str \<Rightarrow> str list" where
  "plain_sent_tokenize text = (if split sample_unicode text = [] then [] else [text])"

definition plain_word_tokenize :: "str \<Rightarrow> str list" where
  "plain_word_tokenize text = split sample_unicode text"


text \<open>
  The record of the one-word text "good" when both lexicons hold the word and the
  pronunciation dictionary is empty.
\<close>

definition good_in_both_lexicons :: metric_record where
  "good_in_both_lexicons =
     \<lparr>POSITIVE_SCORE = 1, NEGATIVE_SCORE = 1, POLARITY_SCORE = 0, SUBJECTIVITY_SCORE = 2,
      AVG_SENTENCE_LENGTH = 1, PERCENTAGE_OF_COMPLEX_WORDS = 0, FOG_INDEX = 2 / 5,
      AVG_NUMBER_OF_WORDS_PER_SENTENCE = 1, COMPLEX_WORD_COUNT = 0, WORD_COUNT = 1,
      SYLLABLE_PER_WORD = 1, PERSONAL_PRONOUNS = 0, AVG_WORD_LENGTH = 4\<rparr>"

section \<open>Properties of the stopword remover\<close>

lemma remove_loop_filter:
  "remove_loop u words stopwords acc = acc @ filter (\<lambda>w. lower u w \<notin> set stopwords) words"
  by (induction words arbitrary: acc) simp_all

lemma split_from_append:
  "list_all (\<lambda>c. \<not> isspace u c) w \<Longrightarrow> split_from u cur (w @ rest) = split_from u (cur @ w) rest"
  by (induction w arbitrary: cur) simp_all

lemma split_from_gap:
  "list_all (isspace u) gap \<Longrightarrow> split_from u [] (gap @ s) = split_from u [] s"
  by (induction gap) simp_all

lemma split_from_tokens:
  "list_all (\<lambda>c. \<not> isspace u c) cur \<Longrightarrow> w \<in> set (split_from u cur s) \<Longrightarrow> is_token u w"
proof (induction s arbitrary: cur)
  case Nil
  then show ?case by (auto simp: is_token_def split: if_splits)
next
  case (Cons c cs)
  show ?case
  proof (cases "isspace u c")
    case True
    then have "w = cur \<and> cur \<noteq> [] \<or> w \<in> set (split_from u [] cs)"
      using Cons.prems(2) by (auto split: if_splits)
    then show ?thesis
      using Cons.prems(1) Cons.IH [of "[]"] by (auto simp: is_token_def)
  next
    case False
    then have "w \<in> set (split_from u (cur @ [c]) cs)"
      using Cons.prems(2) by simp
    moreover have "list_all (\<lambda>d. \<not> isspace u d) (cur @ [c])"
      using False Cons.prems(1) by simp
    ultimately show ?thesis
      using Cons.IH [of "cur @ [c]"] by blast
  qed
qed

lemma split_tokens: "list_all (is_token u) (split u s)"
  using split_from_tokens [of u "[]" _ s] by (simp add: split_def list_all_iff)

lemma isspace_space: "isspace u 32"
  by (simp add: isspace_def is_ascii_def)

lemma split_from_join:
  "list_all (is_token u) ws \<Longrightarrow> split_from u [] (join ws) = ws"
proof (induction ws rule: join.induct)
  case 1
  show ?case by simp
next
  case (2 w)
  then have "is_token u w" by simp
  then show ?case
    using split_from_append [of u w "[]" "[]"] by (simp add: is_token_def)
next
  case (3 w v ws)
  then have w: "is_token u w" and rest: "split_from u [] (join (v # ws)) = v # ws" by simp_all
  have "split_from u [] (join (w # v # ws)) = split_from u w (32 # join (v # ws))"
    using w split_from_append [of u w "[]" "32 # join (v # ws)"] by (simp add: is_token_def)
  also have "\<dots> = w # split_from u [] (join (v # ws))"
    using w by (simp add: isspace_space is_token_def)
  finally show ?case using rest by simp
qed

lemma split_join: "list_all (is_token u) ws \<Longrightarrow> split u (join ws) = ws"
  by (simp add: split_def split_from_join)

lemma list_all_filter: "list_all P xs \<Longrightarrow> list_all P (filter Q xs)"
  by (simp add: list_all_iff)

lemma split_remove:
  "split u (remove_stopwords_from_text u s stopwords) =
     filter (\<lambda>w. lower u w \<notin> set stopwords) (split u s)"
  by (simp add: remove_stopwords_from_text_def remove_loop_filter split_join
      list_all_filter split_tokens)

lemma concat_split_from: "concat (split_from u cur s) = cur @ filter (\<lambda>c. \<not> isspace u c) s"
  by (induction s arbitrary: cur) auto

lemma split_gap: "list_all (isspace u) gap \<Longrightarrow> split u gap = []"
  using split_from_gap [of u gap "[]"] by (simp add: split_def)

lemma split_run:
  assumes "list_all (isspace u) gap" and "is_token u w" and "list_all (isspace u) (take 1 rest)"
  shows "split u (gap @ w @ rest) = w # split u rest"
proof -
  from assms(2) have w: "w \<noteq> []" "list_all (\<lambda>c. \<not> isspace u c) w"
    by (simp_all add: is_token_def)
  have "split u (gap @ w @ rest) = split_from u [] (w @ rest)"
    using split_from_gap [OF assms(1)] by (simp add: split_def)
  also have "\<dots> = split_from u w rest"
    using split_from_append [OF w(2), of "[]" rest] by simp
  also have "\<dots> = w # split_from u [] rest"
    using assms(3) w(1) by (cases rest) simp_all
  finally show ?thesis by (simp add: split_def)
qed



lemma lower_ascii: "list_all is_ascii w \<Longrightarrow> lower u w = map ascii_lower w"
  by (simp add: lower_def)


text \<open>
  C7. The stopword remover splits the text on white space, drops exactly the tokens
  whose lower-cased form is in the stopword list, and joins the remaining tokens, in
  their order, with one space each. The tokens are the maximal runs of characters that
  are not white space: white space alone gives no token, and a text that starts with
  white space, then a run that is followed by white space or by nothing, gives that run
  and the tokens of what follows; each token is non-empty and free of white space, and
  together they are the characters of the text that are not white space. The width of
  the white space between two tokens is lost: two spaces come back as one.
\<close>

theorem remove_stopwords_refines_spec:
  "remove_stopwords_from_text u text stopwords = removeStopwords_spec u text stopwords \<and>
   split u (remove_stopwords_from_text u text stopwords) =
     filter (\<lambda>token. lower u token \<notin> set stopwords) (split u text) \<and>
   list_all (is_token u) (split u text) \<and>
   concat (split u text) = filter (\<lambda>c. \<not> isspace u c) text \<and>
   (list_all (isspace u) gap \<longrightarrow> split u gap = []) \<and>
   (list_all (isspace u) gap \<and> is_token u w \<and> list_all (isspace u) (take 1 rest) \<longrightarrow>
      split u (gap @ w @ rest) = w # split u rest) \<and>
   remove_stopwords_from_text u (str_of ''a  b'') [] = str_of ''a b''"
proof -
  have "remove_stopwords_from_text u (str_of ''a  b'') [] = str_of ''a b''"
    by (simp add: remove_stopwords_from_text_def split_def str_of_def isspace_def is_ascii_def)
  then show ?thesis
    by (simp add: split_remove split_tokens split_gap split_run)
      (simp add: remove_stopwords_from_text_def removeStopwords_spec_def remove_loop_filter
        split_def concat_split_from)
qed

theorem remove_stopwords_refines_spec_witness:
  "remove_stopwords_from_text sample_unicode
     ([201] @ str_of ''cole  est'' @ [160] @ str_of ''la the THE vie'')
     [[233] @ str_of ''cole'', str_of ''the''] = str_of ''est la vie'' \<and>
   split sample_unicode (str_of ''  the cat'') = [str_of ''the'', str_of ''cat''] \<and>
   split sample_unicode [32, 160, 9] = []"
proof -
  let ?text = "[201] @ str_of ''cole  est'' @ [160] @ str_of ''la the THE vie''"
  let ?stop = "[[233] @ str_of ''cole'', str_of ''the'']"
  have 1: "removeStopwords_spec sample_unicode ?text ?stop = str_of ''est la vie''"
    by code_simp
  have 2: "list_all (isspace sample_unicode) [32, 32] \<and> is_token sample_unicode (str_of ''the'') \<and>
      list_all (isspace sample_unicode) (take 1 (str_of '' cat''))"
    by code_simp
  have 3: "split sample_unicode (str_of '' cat'') = [str_of ''cat'']"
    by code_simp
  have 4: "[32, 32] @ str_of ''the'' @ str_of '' cat'' = str_of ''  the cat''"
    by code_simp
  have 5: "list_all (isspace sample_unicode) [32, 160, 9]"
    by code_simp
  have "remove_stopwords_from_text sample_unicode ?text ?stop = str_of ''est la vie''"
    using remove_stopwords_refines_spec [of sample_unicode ?text ?stop] by (simp only: 1)
  moreover have "split sample_unicode (str_of ''  the cat'') = [str_of ''the'', str_of ''cat'']"
    using 2 remove_stopwords_refines_spec
      [of sample_unicode _ _ "[32, 32]" "str_of ''the''" "str_of '' cat''"]
    by (simp only: 3 4 simp_thms)
  moreover have "split sample_unicode [32, 160, 9] = []"
    using 5 remove_stopwords_refines_spec [of sample_unicode _ _ "[32, 160, 9]"] by blast
  ultimately show ?thesis by (simp only: simp_thms)
qed


text \<open>
  C8. Removing the stopwords a second time, with the same stopword list, changes
  nothing.
\<close>

theorem remove_stopwords_idempotent:
  "remove_stopwords_from_text u (remove_stopwords_from_text u text stopwords) stopwords =
     remove_stopwords_from_text u text stopwords"
proof -
  have "remove_stopwords_from_text u (remove_stopwords_from_text u text stopwords) stopwords =
      join (filter (\<lambda>w. lower u w \<notin> set stopwords)
        (split u (remove_stopwords_from_text u text stopwords)))"
    by (simp add: remove_stopwords_from_text_def [of u "remove_stopwords_from_text u text stopwords"]
        remove_loop_filter)
  also have "\<dots> = join (filter (\<lambda>w. lower u w \<notin> set stopwords) (split u text))"
    by (simp add: split_remove)
  also have "\<dots> = remove_stopwords_from_text u text stopwords"
    by (simp add: remove_stopwords_from_text_def remove_loop_filter)
  finally show ?thesis .
qed








section \<open>Properties of the syllable estimator\<close>

lemma and_then_Inr [simp]: "and_then (Inr x) f = f x"
  by (simp add: and_then_def)

lemma and_then_Inl [simp]: "and_then (Inl e) f = Inl e"
  by (simp add: and_then_def)

lemma stressed_filter:
  "list_all (\<lambda>sound. sound \<noteq> []) v \<Longrightarrow>
   stressed u v = Inr (filter (\<lambda>sound. isdigit u (last sound)) v)"
  by (induction v) simp_all

lemma in_vowels: "c \<in> set vowels \<longleftrightarrow> is_vowel c"
  by (auto simp: vowels_def is_vowel_def str_of_def)

lemma starts_after_Cons:
  "length (starts_after prev (c # cs)) =
     (if is_vowel c \<and> \<not> prev then 1 else 0) + length (starts_after (is_vowel c) cs)"
proof -
  let ?P = "\<lambda>i. is_vowel ((c # cs) ! i) \<and>
    (if i = 0 then \<not> prev else \<not> is_vowel ((c # cs) ! (i - 1)))"
  let ?Q = "\<lambda>i. is_vowel (cs ! i) \<and>
    (if i = 0 then \<not> is_vowel c else \<not> is_vowel (cs ! (i - 1)))"
  have "[0..<Suc (length cs)] = 0 # [Suc 0..<Suc (length cs)]"
    by (rule upt_conv_Cons) simp
  then have "[0..<length (c # cs)] = 0 # map Suc [0..<length cs]"
    by (simp only: map_Suc_upt length_Cons)
  then have "starts_after prev (c # cs) = filter ?P (0 # map Suc [0..<length cs])"
    by (simp add: starts_after_def)
  also have "\<dots> = (if is_vowel c \<and> \<not> prev then [0] else []) @
      map Suc (filter (?P \<circ> Suc) [0..<length cs])"
    by (simp add: filter_map)
  also have "filter (?P \<circ> Suc) [0..<length cs] = filter ?Q [0..<length cs]"
    by (rule filter_cong) (auto simp: nth_Cons')
  finally show ?thesis
    by (simp add: starts_after_def)
qed

lemma vowel_loop_runs:
  "vowel_loop w count prev = count + int (length (starts_after prev w))"
proof (induction w arbitrary: count prev)
  case Nil
  show ?case by (simp add: starts_after_def)
next
  case (Cons c cs)
  show ?case
    by (simp add: Cons.IH starts_after_Cons in_vowels)
qed

lemma starts_after_False: "starts_after False w = run_starts w"
  unfolding starts_after_def run_starts_def
  by (rule filter_cong) auto

lemma vowel_loop_vowel_runs: "vowel_loop w 0 False = vowel_runs w"
  by (simp add: vowel_loop_runs starts_after_False vowel_runs_def)

lemma count_syllables_absent:
  "d (lower u word) = None \<Longrightarrow>
   count_syllables u d word = Inr (max 1 (vowel_runs (lower u word)))"
  by (simp add: count_syllables_def vowel_loop_vowel_runs)

lemma count_syllables_present:
  "d (lower u word) = Some (first # others) \<Longrightarrow> list_all (\<lambda>sound. sound \<noteq> []) first \<Longrightarrow>
   count_syllables u d word = Inr (int (length (filter (\<lambda>sound. isdigit u (last sound)) first)))"
  by (simp add: count_syllables_def stressed_filter)

lemma lower_literal:
  "lower u (str_of ''cat'') = str_of ''cat''"
  "lower u (str_of ''happy'') = str_of ''happy''"
  "lower u (str_of ''hmm'') = str_of ''hmm''"
  by (simp_all add: lower_def str_of_def is_ascii_def ascii_lower_def ascii_capital_def)

text \<open>
  C4. The floor of one syllable is applied on the fallback path only. A word that the
  pronunciation dictionary lists with a transcription holding no stressed phoneme gets
  zero syllables: the dictionary branch returns its count as it is.
\<close>

theorem count_syllables_dictionary_zero:
  "count_syllables u [str_of ''hmm'' \<mapsto> [[str_of ''HH'', str_of ''M'']]] (str_of ''hmm'') = Inr 0"
  by (simp add: count_syllables_def lower_literal)
    (simp add: str_of_def isdigit_def is_ascii_def)

text \<open>
  C5. On the lower-cased word: a word that the dictionary lists gets the number of
  phonemes of its first transcription that end in a digit; a word that the dictionary
  does not list gets the number of its maximal runs of vowel characters, and at least
  one. So "cat" has one syllable and "happy" two when the dictionary lists neither.
\<close>

theorem count_syllables_algorithm:
  "(pronunciation_dict (lower u word) = Some (first # others) \<and>
      list_all (\<lambda>sound. sound \<noteq> []) first \<longrightarrow>
    count_syllables u pronunciation_dict word =
      Inr (int (length (filter (\<lambda>sound. isdigit u (last sound)) first)))) \<and>
   (pronunciation_dict (lower u word) = None \<longrightarrow>
    count_syllables u pronunciation_dict word = Inr (max 1 (vowel_runs (lower u word)))) \<and>
   (pronunciation_dict (str_of ''cat'') = None \<longrightarrow>
    count_syllables u pronunciation_dict (str_of ''cat'') = Inr 1) \<and>
   (pronunciation_dict (str_of ''happy'') = None \<longrightarrow>
    count_syllables u pronunciation_dict (str_of ''happy'') = Inr 2)"
proof -
  have cat: "vowel_runs (str_of ''cat'') = 1"
    by code_simp
  have happy: "vowel_runs (str_of ''happy'') = 2"
    by code_simp
  show ?thesis
    using count_syllables_absent [of pronunciation_dict u "str_of ''cat''"]
      count_syllables_absent [of pronunciation_dict u "str_of ''happy''"]
    by (simp add: cat happy lower_literal count_syllables_absent count_syllables_present)
qed

theorem count_syllables_algorithm_witness:
  "count_syllables sample_unicode
     [[233] @ str_of ''cole'' \<mapsto> [[str_of ''EY0'', str_of ''K'', str_of ''OW1'', str_of ''L'']]]
     ([201] @ str_of ''cole'') = Inr 2 \<and>
   count_syllables sample_unicode
     [str_of ''happy'' \<mapsto> [map str_of [''HH'', ''AE1'', ''P'', ''IY0''], map str_of [''HH'', ''AE1'', ''P'']]]
     (str_of ''cat'') = Inr 1 \<and>
   count_syllables sample_unicode Map.empty (str_of ''Rhythm'') = Inr 1 \<and>
   count_syllables sample_unicode Map.empty (str_of ''happy'') = Inr 2"
proof -
  let ?e = "[[233] @ str_of ''cole'' \<mapsto> [[str_of ''EY0'', str_of ''K'', str_of ''OW1'', str_of ''L'']]]"
  let ?d = "[str_of ''happy'' \<mapsto> [map str_of [''HH'', ''AE1'', ''P'', ''IY0''], map str_of [''HH'', ''AE1'', ''P'']]]"
  have 1: "?e (lower sample_unicode ([201] @ str_of ''cole'')) =
      Some ([str_of ''EY0'', str_of ''K'', str_of ''OW1'', str_of ''L''] # []) \<and>
      list_all (\<lambda>sound. sound \<noteq> []) [str_of ''EY0'', str_of ''K'', str_of ''OW1'', str_of ''L'']"
    by code_simp
  have 2: "int (length (filter (\<lambda>sound. isdigit sample_unicode (last sound))
      [str_of ''EY0'', str_of ''K'', str_of ''OW1'', str_of ''L''])) = 2"
    by code_simp
  have 3: "?d (str_of ''cat'') = None"
    by code_simp
  have 4: "Map.empty (lower sample_unicode (str_of ''Rhythm'')) = (None :: str list list option) \<and>
      max 1 (vowel_runs (lower sample_unicode (str_of ''Rhythm''))) = 1"
    by code_simp
  from 1 2 have "count_syllables sample_unicode ?e ([201] @ str_of ''cole'') = Inr 2"
    using count_syllables_algorithm
      [of ?e sample_unicode "[201] @ str_of ''cole''"
        "[str_of ''EY0'', str_of ''K'', str_of ''OW1'', str_of ''L'']" "[]"]
    by (simp only:)
  moreover from 3 have "count_syllables sample_unicode ?d (str_of ''cat'') = Inr 1"
    using count_syllables_algorithm [of ?d sample_unicode] by blast
  moreover from 4 have "count_syllables sample_unicode Map.empty (str_of ''Rhythm'') = Inr 1"
    using count_syllables_algorithm [of Map.empty sample_unicode "str_of ''Rhythm''"] by simp
  moreover have "count_syllables sample_unicode Map.empty (str_of ''happy'') = Inr 2"
    using count_syllables_algorithm [of Map.empty sample_unicode "str_of ''happy''"] by blast
  ultimately show ?thesis
    by (simp only:)
qed


section \<open>Properties of the metrics engine\<close>

lemma sentiment_loop_counts:
  "sentiment_loop u ws P N pc nc =
     (pc + int (length (filter (\<lambda>w. lower u w \<in> P) ws)),
      nc + int (length (filter (\<lambda>w. lower u w \<in> N) ws)))"
  by (induction ws arbitrary: pc nc) (simp_all add: Let_def)

lemma syllable_loop_bounds:
  "syllable_loop u d ws c t = Inr (c', t') \<Longrightarrow> c \<le> c' \<and> c' \<le> c + int (length ws)"
proof (induction ws arbitrary: c t)
  case Nil
  then show ?case by simp
next
  case (Cons w ws)
  then obtain n where n: "count_syllables u d w = Inr n"
    by (cases "count_syllables u d w") simp_all
  with Cons.prems have "syllable_loop u d ws (if n > 2 then c + 1 else c) (t + n) = Inr (c', t')"
    by simp
  from Cons.IH [OF this] show ?case
    by (simp split: if_splits)
qed


lemma stressed_total: "list_all (\<lambda>sound. sound \<noteq> []) v \<Longrightarrow> \<exists>k. stressed u v = Inr k"
  by (induction v) auto

lemma stressed_no_zerodiv: "stressed u v \<noteq> Inl ZeroDivisionError"
  by (induction v) (auto simp: and_then_def split: sum.splits)

lemma count_syllables_no_zerodiv: "count_syllables u d w \<noteq> Inl ZeroDivisionError"
  by (auto simp: count_syllables_def Let_def and_then_def stressed_no_zerodiv split: option.splits list.splits sum.splits)

lemma syllable_loop_no_zerodiv: "syllable_loop u d ws c t \<noteq> Inl ZeroDivisionError"
  by (induction ws arbitrary: c t) (auto simp: and_then_def count_syllables_no_zerodiv split: sum.splits)

lemma count_syllables_total:
  "well_formed_dict d \<Longrightarrow> \<exists>n. count_syllables u d w = Inr n"
proof (cases "d (lower u w)")
  case None
  then show ?thesis by (simp add: count_syllables_def)
next
  case (Some variants)
  assume "well_formed_dict d"
  with Some have ne: "variants \<noteq> []" and all: "\<forall>sound \<in> set (hd variants). sound \<noteq> []"
    by (auto simp: well_formed_dict_def)
  then obtain v vs where v: "variants = v # vs" by (cases variants) auto
  with all have "list_all (\<lambda>sound. sound \<noteq> []) v" by (simp add: list_all_iff)
  then obtain k where "stressed u v = Inr k" using stressed_total by blast
  with Some v show ?thesis by (simp add: count_syllables_def)
qed

lemma syllable_loop_total:
  "well_formed_dict d \<Longrightarrow> \<exists>c' t'. syllable_loop u d ws c t = Inr (c', t')"
proof (induction ws arbitrary: c t)
  case Nil
  show ?case by simp
next
  case (Cons w ws)
  from count_syllables_total [OF Cons.prems] obtain n where "count_syllables u d w = Inr n" by blast
  with Cons.IH [OF Cons.prems] show ?case by simp
qed

lemma round_half_even_lower: "real_of_int k \<le> y \<Longrightarrow> k \<le> round_half_even y"
proof -
  assume "real_of_int k \<le> y"
  then have "k \<le> \<lfloor>y\<rfloor>" by (simp add: le_floor_iff)
  then show ?thesis by (simp add: round_half_even_def Let_def)
qed

lemma round_half_even_upper: "y \<le> real_of_int k \<Longrightarrow> round_half_even y \<le> k"
proof (cases "y = of_int \<lfloor>y\<rfloor>")
  case True
  assume "y \<le> real_of_int k"
  then have "\<lfloor>y\<rfloor> \<le> k" by (simp add: floor_le_iff) 
  with True show ?thesis by (simp add: round_half_even_def Let_def)
next
  case False
  assume le: "y \<le> real_of_int k"
  have "of_int \<lfloor>y\<rfloor> < y" using False of_int_floor_le [of y] by (auto simp: less_le)
  with le have "real_of_int \<lfloor>y\<rfloor> < real_of_int k" by simp
  then have "\<lfloor>y\<rfloor> + 1 \<le> k" by simp
  moreover have "round_half_even y \<le> \<lfloor>y\<rfloor> + 1" by (simp add: round_half_even_def Let_def)
  ultimately show ?thesis by simp
qed

lemma round3_lower: "real_of_int k \<le> x \<Longrightarrow> real_of_int k \<le> round3 x"
proof -
  assume "real_of_int k \<le> x"
  then have "real_of_int (k * 1000) \<le> x * 1000" by simp
  then have "k * 1000 \<le> round_half_even (x * 1000)" by (rule round_half_even_lower)
  then have "real_of_int (k * 1000) \<le> real_of_int (round_half_even (x * 1000))"
    by (simp only: of_int_le_iff)
  then show ?thesis by (simp add: round3_def)
qed

lemma round3_upper: "x \<le> real_of_int k \<Longrightarrow> round3 x \<le> real_of_int k"
proof -
  assume "x \<le> real_of_int k"
  then have "x * 1000 \<le> real_of_int (k * 1000)" by simp
  then have "round_half_even (x * 1000) \<le> k * 1000" by (rule round_half_even_upper)
  then have "real_of_int (round_half_even (x * 1000)) \<le> real_of_int (k * 1000)"
    by (simp only: of_int_le_iff)
  then show ?thesis by (simp add: round3_def)
qed

lemma round3_int: "round3 (real_of_int k) = real_of_int k"
  using round3_lower [of k "real_of_int k"] round3_upper [of "real_of_int k" k] by simp

lemma truediv_Inr: "b \<noteq> 0 \<Longrightarrow> truediv a b = Inr (real_of_int a / real_of_int b)"
  by (simp add: truediv_def)

lemma analyze_locals_degenerate:
  "filter (isalpha u) (wt s) = [] \<or> st s = [] \<Longrightarrow> analyze_locals u st wt d s P N = Inr None"
  by (auto simp: analyze_locals_def)

lemma analyze_locals_raises:
  assumes "filter (isalpha u) (wt s) \<noteq> []" and "st s \<noteq> []"
    and "syllable_loop u d (filter (isalpha u) (wt s)) 0 0 = Inl e"
  shows "analyze_locals u st wt d s P N = Inl e"
  using assms
  by (simp add: analyze_locals_def Let_def truediv_Inr split: prod.splits)

lemma analyze_locals_full:
  assumes "filter (isalpha u) (wt s) \<noteq> []" and "st s \<noteq> []"
    and "syllable_loop u d (filter (isalpha u) (wt s)) 0 0 = Inr (cwc, tot)"
    and "sentiment_loop u (filter (isalpha u) (wt s)) P N 0 0 = (pc, nc)"
  shows "analyze_locals u st wt d s P N = Inr (Some
    \<lparr>word_count = int (length (filter (isalpha u) (wt s))),
     sentence_count = int (length (st s)),
     positive_count = pc, negative_count = nc,
     polarity = (if pc + nc > 0 then real_of_int (pc - nc) / real_of_int (pc + nc) else 0),
     subjectivity = (if pc + nc > 0
        then real_of_int (pc + nc) / real_of_int (int (length (filter (isalpha u) (wt s)))) else 0),
     avg_sentence_length =
        real_of_int (int (length (filter (isalpha u) (wt s)))) / real_of_int (int (length (st s))),
     complex_word_count = cwc, total_syllables = tot,
     percentage_complex =
        real_of_int cwc / real_of_int (int (length (filter (isalpha u) (wt s)))) * 100,
     fog_index = 0.4 *
        (real_of_int (int (length (filter (isalpha u) (wt s)))) / real_of_int (int (length (st s))) +
         real_of_int cwc / real_of_int (int (length (filter (isalpha u) (wt s)))) * 100),
     avg_syllables_per_word = real_of_int tot / real_of_int (int (length (filter (isalpha u) (wt s)))),
     personal_pronouns = int (length (findall_pronouns u s)),
     avg_word_length = real_of_int (sum_list (map (\<lambda>word. int (length word)) (filter (isalpha u) (wt s)))) /
        real_of_int (int (length (filter (isalpha u) (wt s))))\<rparr>)"
  using assms
  by (simp add: analyze_locals_def Let_def truediv_Inr split: prod.splits)

lemma analyze_locals_fields:
  assumes "analyze_locals u st wt d s P N = Inr (Some a)"
  shows "filter (isalpha u) (wt s) \<noteq> [] \<and> st s \<noteq> [] \<and>
    syllable_loop u d (filter (isalpha u) (wt s)) 0 0 = Inr (complex_word_count a, total_syllables a) \<and>
    sentiment_loop u (filter (isalpha u) (wt s)) P N 0 0 = (positive_count a, negative_count a) \<and>
    word_count a = int (length (filter (isalpha u) (wt s))) \<and>
    sentence_count a = int (length (st s)) \<and>
    polarity a = (if positive_count a + negative_count a > 0
      then real_of_int (positive_count a - negative_count a) /
           real_of_int (positive_count a + negative_count a) else 0) \<and>
    subjectivity a = (if positive_count a + negative_count a > 0
      then real_of_int (positive_count a + negative_count a) / real_of_int (word_count a) else 0) \<and>
    avg_sentence_length a = real_of_int (word_count a) / real_of_int (sentence_count a) \<and>
    percentage_complex a = real_of_int (complex_word_count a) / real_of_int (word_count a) * 100 \<and>
    fog_index a = 0.4 * (avg_sentence_length a + percentage_complex a) \<and>
    avg_syllables_per_word a = real_of_int (total_syllables a) / real_of_int (word_count a) \<and>
    personal_pronouns a = int (length (findall_pronouns u s)) \<and>
    avg_word_length a =
      real_of_int (sum_list (map (\<lambda>word. int (length word)) (filter (isalpha u) (wt s)))) /
      real_of_int (word_count a)"
proof -
  have nondeg: "filter (isalpha u) (wt s) \<noteq> [] \<and> st s \<noteq> []"
    using assms analyze_locals_degenerate [of u wt s st d P N] by auto
  obtain pc nc where sent: "sentiment_loop u (filter (isalpha u) (wt s)) P N 0 0 = (pc, nc)"
    by (cases "sentiment_loop u (filter (isalpha u) (wt s)) P N 0 0") 
  show ?thesis
  proof (cases "syllable_loop u d (filter (isalpha u) (wt s)) 0 0")
    case (Inl e)
    with nondeg assms analyze_locals_raises [of u wt s st d e P N] show ?thesis by simp
  next
    case (Inr ct)
    obtain cwc tot where "ct = (cwc, tot)" by (cases ct)
    with Inr have syl: "syllable_loop u d (filter (isalpha u) (wt s)) 0 0 = Inr (cwc, tot)" by simp
    from nondeg have "filter (isalpha u) (wt s) \<noteq> []" and "st s \<noteq> []" by simp_all
    from analyze_locals_full [of u wt s st d cwc tot P N pc nc, OF this syl sent] assms
    show ?thesis using nondeg syl sent by auto
  qed
qed

lemma length_filter_mono:
  "(\<And>x. x \<in> set xs \<Longrightarrow> Q x \<Longrightarrow> R x) \<Longrightarrow> length (filter Q xs) \<le> length (filter R xs)"
  by (induction xs) auto

lemma disjoint_counts:
  assumes "P \<inter> N = {}"
  shows "length (filter (\<lambda>w. lower u w \<in> P) ws) + length (filter (\<lambda>w. lower u w \<in> N) ws) \<le> length ws"
proof -
  have "length (filter (\<lambda>w. lower u w \<in> N) ws) \<le> length (filter (\<lambda>w. \<not> lower u w \<in> P) ws)"
    using assms by (intro length_filter_mono) auto
  moreover have "length (filter (\<lambda>w. lower u w \<in> P) ws) + length (filter (\<lambda>w. \<not> lower u w \<in> P) ws) = length ws"
    by (rule sum_length_filter_compl)
  ultimately show ?thesis by linarith
qed

lemma analyze_article_text_locals:
  "analyze_locals u st wt d s P N = Inr (Some a) \<Longrightarrow>
   analyze_article_text u st wt d s P N = Inr (Some (build_record a))"
  by (simp add: analyze_article_text_def)

text \<open>
  C1. Whenever the analysis yields a record: the complex words are at most the words,
  their percentage lies between 0 and 100, the polarity between -1 and 1, and the
  subjectivity is not negative. Each of the two scores is at most the word count. A word
  that both lexicons hold is counted in both scores, so the sum of the scores is at most
  the word count, and the subjectivity at most 1, when no word is in both lexicons; in
  general the subjectivity is at most 2. The same bounds hold for the rounded fields of
  the record.
\<close>

theorem analyze_invariants:
  "analyze_locals u sent_tokenize word_tokenize d text positive_words negative_words = Inr (Some a) \<Longrightarrow>
   analyze_article_text u sent_tokenize word_tokenize d text positive_words negative_words =
     Inr (Some (build_record a)) \<and>
   complex_word_count a \<le> word_count a \<and>
   0 \<le> percentage_complex a \<and> percentage_complex a \<le> 100 \<and>
   - 1 \<le> polarity a \<and> polarity a \<le> 1 \<and> 0 \<le> subjectivity a \<and> subjectivity a \<le> 2 \<and>
   positive_count a \<le> word_count a \<and> negative_count a \<le> word_count a \<and>
   (positive_words \<inter> negative_words = {} \<longrightarrow>
      positive_count a + negative_count a \<le> word_count a \<and> subjectivity a \<le> 1) \<and>
   COMPLEX_WORD_COUNT (build_record a) \<le> WORD_COUNT (build_record a) \<and>
   0 \<le> PERCENTAGE_OF_COMPLEX_WORDS (build_record a) \<and>
   PERCENTAGE_OF_COMPLEX_WORDS (build_record a) \<le> 100 \<and>
   - 1 \<le> POLARITY_SCORE (build_record a) \<and> POLARITY_SCORE (build_record a) \<le> 1 \<and>
   0 \<le> SUBJECTIVITY_SCORE (build_record a) \<and>
   (positive_words \<inter> negative_words = {} \<longrightarrow>
      POSITIVE_SCORE (build_record a) + NEGATIVE_SCORE (build_record a) \<le> WORD_COUNT (build_record a) \<and>
      SUBJECTIVITY_SCORE (build_record a) \<le> 1)"
proof -
  assume run: "analyze_locals u sent_tokenize word_tokenize d text positive_words negative_words = Inr (Some a)"
  let ?clean = "filter (isalpha u) (word_tokenize text)"
  note f = analyze_locals_fields [OF run]
  from f have wc: "word_count a = int (length ?clean)" and wc_pos: "0 < word_count a"
    by simp_all
  from f have "syllable_loop u d ?clean 0 0 = Inr (complex_word_count a, total_syllables a)"
    by simp
  from syllable_loop_bounds [OF this] wc
  have cwc: "0 \<le> complex_word_count a" "complex_word_count a \<le> word_count a"
    by simp_all
  from f have "sentiment_loop u ?clean positive_words negative_words 0 0 = (positive_count a, negative_count a)"
    by simp
  then have pc: "positive_count a = int (length (filter (\<lambda>w. lower u w \<in> positive_words) ?clean))"
    and nc: "negative_count a = int (length (filter (\<lambda>w. lower u w \<in> negative_words) ?clean))"
    by (simp_all add: sentiment_loop_counts)
  have pc0: "0 \<le> positive_count a" and nc0: "0 \<le> negative_count a"
    by (simp_all add: pc nc)
  have "length (filter (\<lambda>w. lower u w \<in> positive_words) ?clean) \<le> length ?clean"
    by (rule length_filter_le)
  then have pcw: "positive_count a \<le> word_count a"
    by (simp only: pc wc of_nat_le_iff)
  have "length (filter (\<lambda>w. lower u w \<in> negative_words) ?clean) \<le> length ?clean"
    by (rule length_filter_le)
  then have ncw: "negative_count a \<le> word_count a"
    by (simp only: nc wc of_nat_le_iff)
  have disj: "positive_count a + negative_count a \<le> word_count a"
    if "positive_words \<inter> negative_words = {}"
    using disjoint_counts [OF that, of u ?clean] by (simp add: pc nc wc)
  have pct: "percentage_complex a = real_of_int (complex_word_count a) / real_of_int (word_count a) * 100"
    using f by simp
  have pct0: "0 \<le> percentage_complex a"
    using cwc wc_pos by (simp add: pct)
  have pct100: "percentage_complex a \<le> 100"
    using cwc wc_pos by (simp add: pct divide_le_eq)
  have pol: "polarity a = (if positive_count a + negative_count a > 0
      then real_of_int (positive_count a - negative_count a) /
           real_of_int (positive_count a + negative_count a) else 0)"
    using f by simp
  have pol_lo: "- 1 \<le> polarity a"
  proof (cases "positive_count a + negative_count a > 0")
    case True
    then have "- 1 \<le> real_of_int (positive_count a - negative_count a) /
        real_of_int (positive_count a + negative_count a)"
      using pc0 nc0 by (simp add: le_divide_eq)
    with True show ?thesis by (simp add: pol)
  next
    case False
    then show ?thesis by (simp add: pol)
  qed
  have pol_hi: "polarity a \<le> 1"
  proof (cases "positive_count a + negative_count a > 0")
    case True
    then have "real_of_int (positive_count a - negative_count a) /
        real_of_int (positive_count a + negative_count a) \<le> 1"
      using pc0 nc0 by (simp add: divide_le_eq)
    with True show ?thesis by (simp add: pol)
  next
    case False
    then show ?thesis by (simp add: pol)
  qed
  have sub: "subjectivity a = (if positive_count a + negative_count a > 0
      then real_of_int (positive_count a + negative_count a) / real_of_int (word_count a) else 0)"
    using f by simp
  have sub0: "0 \<le> subjectivity a"
    using pc0 nc0 wc_pos by (simp add: sub)
  have sub2: "subjectivity a \<le> 2"
    using pcw ncw wc_pos by (simp add: sub divide_le_eq)
  have sub1: "subjectivity a \<le> 1" if "positive_words \<inter> negative_words = {}"
    using disj [OF that] wc_pos by (simp add: sub divide_le_eq)
  have r1: "0 \<le> round3 (percentage_complex a)"
    using round3_lower [of 0] pct0 by simp
  have r2: "round3 (percentage_complex a) \<le> 100"
    using round3_upper [of _ 100] pct100 by simp
  have r3: "- 1 \<le> round3 (polarity a)"
    using round3_lower [of "- 1"] pol_lo by simp
  have r4: "round3 (polarity a) \<le> 1"
    using round3_upper [of _ 1] pol_hi by simp
  have r5: "0 \<le> round3 (subjectivity a)"
    using round3_lower [of 0] sub0 by simp
  have r6: "round3 (subjectivity a) \<le> 1" if "positive_words \<inter> negative_words = {}"
    using round3_upper [of _ 1] sub1 [OF that] by simp
  show ?thesis
    using analyze_article_text_locals [OF run] cwc pct0 pct100 pol_lo pol_hi sub0 sub2 pcw ncw
      disj sub1 r1 r2 r3 r4 r5 r6
    by (simp add: build_record_def)
qed

theorem analyze_invariants_witness:
  "analyze_article_text sample_unicode plain_sent_tokenize plain_word_tokenize Map.empty
     (str_of ''I love this and we love that'') {str_of ''love''} {str_of ''hate''} =
   Inr (Some \<lparr>POSITIVE_SCORE = 2, NEGATIVE_SCORE = 0, POLARITY_SCORE = 1,
     SUBJECTIVITY_SCORE = 286 / 1000, AVG_SENTENCE_LENGTH = 7,
     PERCENTAGE_OF_COMPLEX_WORDS = 0, FOG_INDEX = 28 / 10,
     AVG_NUMBER_OF_WORDS_PER_SENTENCE = 7, COMPLEX_WORD_COUNT = 0,
     WORD_COUNT = 7, SYLLABLE_PER_WORD = 1286 / 1000,
     PERSONAL_PRONOUNS = 2, AVG_WORD_LENGTH = 3143 / 1000\<rparr>) \<and>
   (2::int) + 0 \<le> 7 \<and> (286::real) / 1000 \<le> 1"
proof -
  let ?a = "\<lparr>word_count = 7, sentence_count = 1, positive_count = 2, negative_count = 0,
    polarity = 1, subjectivity = 2 / 7, avg_sentence_length = 7, complex_word_count = 0,
    total_syllables = 9, percentage_complex = 0, fog_index = 28 / 10,
    avg_syllables_per_word = 9 / 7, personal_pronouns = 2, avg_word_length = 22 / 7\<rparr>"
  have run: "analyze_locals sample_unicode plain_sent_tokenize plain_word_tokenize Map.empty
      (str_of ''I love this and we love that'') {str_of ''love''} {str_of ''hate''} = Inr (Some ?a)"
    by code_simp
  have rec: "build_record ?a = \<lparr>POSITIVE_SCORE = 2, NEGATIVE_SCORE = 0, POLARITY_SCORE = 1,
     SUBJECTIVITY_SCORE = 286 / 1000, AVG_SENTENCE_LENGTH = 7,
     PERCENTAGE_OF_COMPLEX_WORDS = 0, FOG_INDEX = 28 / 10,
     AVG_NUMBER_OF_WORDS_PER_SENTENCE = 7, COMPLEX_WORD_COUNT = 0,
     WORD_COUNT = 7, SYLLABLE_PER_WORD = 1286 / 1000,
     PERSONAL_PRONOUNS = 2, AVG_WORD_LENGTH = 3143 / 1000\<rparr>"
    by code_simp
  have "analyze_article_text sample_unicode plain_sent_tokenize plain_word_tokenize Map.empty
      (str_of ''I love this and we love that'') {str_of ''love''} {str_of ''hate''} =
      Inr (Some (build_record ?a))"
    using analyze_invariants [OF run] by (rule conjunct1)
  then show ?thesis
    by (simp only: rec) simp
qed

text \<open>
  The text "good", with "good" in both lexicons: one word, positive score 1 and negative
  score 1, subjectivity 2.
\<close>

theorem overlapping_lexicons_counterexample:
  "analyze_article_text sample_unicode plain_sent_tokenize plain_word_tokenize Map.empty
     (str_of ''good'') {str_of ''good''} {str_of ''good''} = Inr (Some good_in_both_lexicons) \<and>
   \<not> POSITIVE_SCORE good_in_both_lexicons + NEGATIVE_SCORE good_in_both_lexicons
       \<le> WORD_COUNT good_in_both_lexicons \<and>
   \<not> SUBJECTIVITY_SCORE good_in_both_lexicons \<le> 1"
proof -
  have "analyze_article_text sample_unicode plain_sent_tokenize plain_word_tokenize Map.empty
     (str_of ''good'') {str_of ''good''} {str_of ''good''} = Inr (Some good_in_both_lexicons)"
    by code_simp
  then show ?thesis
    by (simp add: good_in_both_lexicons_def)
qed

lemma analyze_locals_no_zerodiv:
  "analyze_locals u st wt d s P N \<noteq> Inl ZeroDivisionError"
proof (cases "filter (isalpha u) (wt s) = [] \<or> st s = []")
  case True
  then show ?thesis by (simp add: analyze_locals_degenerate)
next
  case False
  then have ne: "filter (isalpha u) (wt s) \<noteq> []" "st s \<noteq> []" by simp_all
  obtain pc nc where sent: "sentiment_loop u (filter (isalpha u) (wt s)) P N 0 0 = (pc, nc)"
    by (cases "sentiment_loop u (filter (isalpha u) (wt s)) P N 0 0")
  show ?thesis
  proof (cases "syllable_loop u d (filter (isalpha u) (wt s)) 0 0")
    case (Inl e)
    with syllable_loop_no_zerodiv [of u d "filter (isalpha u) (wt s)" 0 0]
    have "e \<noteq> ZeroDivisionError" by auto
    with analyze_locals_raises [of u wt s st d e P N, OF ne Inl] show ?thesis by simp
  next
    case (Inr ct)
    obtain cwc tot where "ct = (cwc, tot)" by (cases ct)
    with Inr have "syllable_loop u d (filter (isalpha u) (wt s)) 0 0 = Inr (cwc, tot)" by simp
    from analyze_locals_full [of u wt s st d cwc tot P N pc nc, OF ne this sent]
    show ?thesis by simp
  qed
qed

lemma analyze_locals_total:
  assumes "filter (isalpha u) (wt s) \<noteq> []" and "st s \<noteq> []" and "well_formed_dict d"
  shows "\<exists>a. analyze_locals u st wt d s P N = Inr (Some a)"
proof -
  obtain pc nc where sent: "sentiment_loop u (filter (isalpha u) (wt s)) P N 0 0 = (pc, nc)"
    by (cases "sentiment_loop u (filter (isalpha u) (wt s)) P N 0 0")
  from syllable_loop_total [OF assms(3)] obtain cwc tot
    where "syllable_loop u d (filter (isalpha u) (wt s)) 0 0 = Inr (cwc, tot)" by blast
  from analyze_locals_full [of u wt s st d cwc tot P N pc nc, OF assms(1,2) this sent]
  show ?thesis by blast
qed

lemma analyze_article_text_cases:
  "analyze_article_text u st wt d s P N =
     (case analyze_locals u st wt d s P N of Inl e \<Rightarrow> Inl e | Inr result \<Rightarrow> Inr (map_option build_record result))"
  by (simp add: analyze_article_text_def and_then_def)

text \<open>
  C2. No division of the analysis has a zero divisor: whatever the input, the analysis
  never raises ZeroDivisionError. When the text has at least one sentence and at least
  one alphabetic word, and the pronunciation dictionary is well formed, the analysis
  returns a full record, all thirteen fields computed.
\<close>

theorem analyze_total:
  "analyze_article_text u sent_tokenize word_tokenize d text positive_words negative_words
     \<noteq> Inl ZeroDivisionError \<and>
   (sent_tokenize text \<noteq> [] \<and> filter (isalpha u) (word_tokenize text) \<noteq> [] \<and> well_formed_dict d \<longrightarrow>
      (\<exists>a. analyze_locals u sent_tokenize word_tokenize d text positive_words negative_words = Inr (Some a) \<and>
           analyze_article_text u sent_tokenize word_tokenize d text positive_words negative_words =
             Inr (Some (build_record a))))"
proof -
  have "analyze_article_text u sent_tokenize word_tokenize d text positive_words negative_words
     \<noteq> Inl ZeroDivisionError"
    using analyze_locals_no_zerodiv [of u sent_tokenize word_tokenize d "text" positive_words negative_words]
    by (auto simp: analyze_article_text_cases split: sum.splits)
  moreover have "\<exists>a. analyze_locals u sent_tokenize word_tokenize d text positive_words negative_words = Inr (Some a) \<and>
           analyze_article_text u sent_tokenize word_tokenize d text positive_words negative_words =
             Inr (Some (build_record a))"
    if "sent_tokenize text \<noteq> []" "filter (isalpha u) (word_tokenize text) \<noteq> []" "well_formed_dict d"
    using analyze_locals_total
      [of u word_tokenize "text" sent_tokenize d positive_words negative_words, OF that(2,1,3)]
    by (auto simp: analyze_article_text_cases)
  ultimately show ?thesis by blast
qed

theorem analyze_total_witness:
  "plain_sent_tokenize (str_of ''good'') \<noteq> [] \<and>
   filter (isalpha sample_unicode) (plain_word_tokenize (str_of ''good'')) \<noteq> [] \<and>
   well_formed_dict [str_of ''good'' \<mapsto> [[str_of ''G'', str_of ''UH1'', str_of ''D'']]] \<and>
   analyze_article_text sample_unicode plain_sent_tokenize plain_word_tokenize
     [str_of ''good'' \<mapsto> [[str_of ''G'', str_of ''UH1'', str_of ''D'']]]
     (str_of ''good'') {str_of ''good''} {} =
   Inr (Some \<lparr>POSITIVE_SCORE = 1, NEGATIVE_SCORE = 0, POLARITY_SCORE = 1, SUBJECTIVITY_SCORE = 1,
      AVG_SENTENCE_LENGTH = 1, PERCENTAGE_OF_COMPLEX_WORDS = 0, FOG_INDEX = 2 / 5,
      AVG_NUMBER_OF_WORDS_PER_SENTENCE = 1, COMPLEX_WORD_COUNT = 0, WORD_COUNT = 1,
      SYLLABLE_PER_WORD = 1, PERSONAL_PRONOUNS = 0, AVG_WORD_LENGTH = 4\<rparr>)"
proof -
  let ?d = "[str_of ''good'' \<mapsto> [[str_of ''G'', str_of ''UH1'', str_of ''D'']]]"
  have 1: "plain_sent_tokenize (str_of ''good'') \<noteq> [] \<and>
      filter (isalpha sample_unicode) (plain_word_tokenize (str_of ''good'')) \<noteq> []"
    by code_simp
  have 2: "well_formed_dict ?d"
    by (simp add: well_formed_dict_def str_of_def)
  from 1 2 analyze_total
    [of sample_unicode plain_sent_tokenize plain_word_tokenize ?d "str_of ''good''"
      "{str_of ''good''}" "{}"]
  obtain a where "analyze_article_text sample_unicode plain_sent_tokenize plain_word_tokenize ?d
      (str_of ''good'') {str_of ''good''} {} = Inr (Some (build_record a))"
    by blast
  moreover have "analyze_article_text sample_unicode plain_sent_tokenize plain_word_tokenize ?d
      (str_of ''good'') {str_of ''good''} {} =
      Inr (Some \<lparr>POSITIVE_SCORE = 1, NEGATIVE_SCORE = 0, POLARITY_SCORE = 1, SUBJECTIVITY_SCORE = 1,
      AVG_SENTENCE_LENGTH = 1, PERCENTAGE_OF_COMPLEX_WORDS = 0, FOG_INDEX = 2 / 5,
      AVG_NUMBER_OF_WORDS_PER_SENTENCE = 1, COMPLEX_WORD_COUNT = 0, WORD_COUNT = 1,
      SYLLABLE_PER_WORD = 1, PERSONAL_PRONOUNS = 0, AVG_WORD_LENGTH = 4\<rparr>)"
    by code_simp
  ultimately show ?thesis
    using 1 2 by (simp only: simp_thms)
qed

text \<open>
  C3. The analysis returns the empty dictionary, and neither an error nor a record,
  exactly when the text has no sentence or no alphabetic word. So it does for the empty
  text, whatever the lexicons, as a tokenizer finds nothing in it.
\<close>

theorem analyze_insufficient_content:
  "(analyze_article_text u sent_tokenize word_tokenize d text positive_words negative_words = Inr None) =
     (sent_tokenize text = [] \<or> filter (isalpha u) (word_tokenize text) = []) \<and>
   (sent_tokenize [] = [] \<or> word_tokenize [] = [] \<longrightarrow>
      analyze_article_text u sent_tokenize word_tokenize d [] positive_words negative_words = Inr None)"
proof -
  have iff: "(analyze_article_text u st wt d s P N = Inr None) =
      (st s = [] \<or> filter (isalpha u) (wt s) = [])" for st wt s P N
  proof (cases "st s = [] \<or> filter (isalpha u) (wt s) = []")
    case True
    then have "analyze_locals u st wt d s P N = Inr None"
      using analyze_locals_degenerate [of u wt s st d P N] by blast
    with True show ?thesis by (simp add: analyze_article_text_cases)
  next
    case False
    have "analyze_locals u st wt d s P N \<noteq> Inr None"
    proof (cases "syllable_loop u d (filter (isalpha u) (wt s)) 0 0")
      case (Inl e)
      with False analyze_locals_raises [of u wt s st d e P N] show ?thesis by simp
    next
      case (Inr ct)
      obtain cwc tot where "ct = (cwc, tot)" by (cases ct)
      with Inr have syl: "syllable_loop u d (filter (isalpha u) (wt s)) 0 0 = Inr (cwc, tot)" by simp
      obtain pc nc where sent: "sentiment_loop u (filter (isalpha u) (wt s)) P N 0 0 = (pc, nc)"
        by (cases "sentiment_loop u (filter (isalpha u) (wt s)) P N 0 0")
      from False have "filter (isalpha u) (wt s) \<noteq> []" "st s \<noteq> []" by simp_all
      from analyze_locals_full [of u wt s st d cwc tot P N pc nc, OF this syl sent]
      show ?thesis by simp
    qed
    with False show ?thesis
      by (auto simp: analyze_article_text_cases split: sum.splits)
  qed
  show ?thesis
    using iff [of sent_tokenize word_tokenize "[]" positive_words negative_words]
    by (auto simp: iff)
qed

theorem analyze_insufficient_content_witness:
  "plain_word_tokenize [] = [] \<and>
   analyze_article_text sample_unicode plain_sent_tokenize plain_word_tokenize Map.empty
     [] {str_of ''good''} {str_of ''bad''} = Inr None \<and>
   analyze_article_text sample_unicode plain_sent_tokenize plain_word_tokenize Map.empty
     (str_of ''2024 -- 17'') {str_of ''good''} {str_of ''bad''} = Inr None \<and>
   analyze_article_text sample_unicode plain_sent_tokenize plain_word_tokenize Map.empty
     (str_of ''caf'' @ [233]) {str_of ''good''} {str_of ''bad''} \<noteq> Inr None"
proof -
  have 1: "plain_word_tokenize [] = []"
    by code_simp
  have 2: "filter (isalpha sample_unicode) (plain_word_tokenize (str_of ''2024 -- 17'')) = []"
    by code_simp
  have 3: "plain_sent_tokenize (str_of ''caf'' @ [233]) \<noteq> [] \<and>
      filter (isalpha sample_unicode) (plain_word_tokenize (str_of ''caf'' @ [233])) \<noteq> []"
    by code_simp
  have "analyze_article_text sample_unicode plain_sent_tokenize plain_word_tokenize Map.empty
      [] {str_of ''good''} {str_of ''bad''} = Inr None"
    using 1 analyze_insufficient_content
      [of sample_unicode plain_sent_tokenize plain_word_tokenize Map.empty _
        "{str_of ''good''}" "{str_of ''bad''}"]
    by blast
  moreover have "analyze_article_text sample_unicode plain_sent_tokenize plain_word_tokenize
      Map.empty (str_of ''2024 -- 17'') {str_of ''good''} {str_of ''bad''} = Inr None"
    using 2 analyze_insufficient_content
      [of sample_unicode plain_sent_tokenize plain_word_tokenize Map.empty
        "str_of ''2024 -- 17''" "{str_of ''good''}" "{str_of ''bad''}"]
    by blast
  moreover have "analyze_article_text sample_unicode plain_sent_tokenize plain_word_tokenize
      Map.empty (str_of ''caf'' @ [233]) {str_of ''good''} {str_of ''bad''} \<noteq> Inr None"
    using 3 analyze_insufficient_content
      [of sample_unicode plain_sent_tokenize plain_word_tokenize Map.empty
        "str_of ''caf'' @ [233]" "{str_of ''good''}" "{str_of ''bad''}"]
    by blast
  ultimately show ?thesis
    using 1 by (simp only: simp_thms)
qed


section \<open>Properties of the pronoun count\<close>

lemma whole_word_after_None: "whole_word_after u None s i p = whole_word_at u s i p"
  by (auto simp: whole_word_after_def whole_word_at_def)

lemma positions_after_None: "positions_after u None s = pronoun_positions u s"
  by (simp add: positions_after_def pronoun_positions_def whole_word_after_None [abs_def])

lemma whole_word_after_Suc:
  "whole_word_after u prev (c # cs) (Suc i) p = whole_word_after u (Some c) cs i p"
  by (auto simp: whole_word_after_def nth_Cons')

lemma positions_after_Cons:
  "length (positions_after u prev (c # cs)) =
     (if list_ex (whole_word_after u prev (c # cs) 0) pronouns then 1 else 0) +
     length (positions_after u (Some c) cs)"
proof -
  let ?P = "\<lambda>i. list_ex (whole_word_after u prev (c # cs) i) pronouns"
  have "[0..<Suc (length cs)] = 0 # [Suc 0..<Suc (length cs)]"
    by (rule upt_conv_Cons) simp
  then have "[0..<length (c # cs)] = 0 # map Suc [0..<length cs]"
    by (simp only: map_Suc_upt length_Cons)
  then have "positions_after u prev (c # cs) = filter ?P (0 # map Suc [0..<length cs])"
    by (simp add: positions_after_def)
  also have "\<dots> = (if ?P 0 then [0] else []) @ map Suc (filter (?P \<circ> Suc) [0..<length cs])"
    by (simp add: filter_map)
  also have "?P \<circ> Suc = (\<lambda>i. list_ex (whole_word_after u (Some c) cs i) pronouns)"
    by (simp add: fun_eq_iff whole_word_after_Suc [abs_def])
  finally show ?thesis
    by (simp add: positions_after_def)
qed

lemma match_alternatives_Some:
  "match_alternatives u ps prev s = Some n \<Longrightarrow> \<exists>p \<in> set ps. n = length p \<and> alternative_ok u prev s p"
  by (induction ps) (auto simp: alternative_ok_def split: if_splits)

lemma match_alternatives_None:
  "match_alternatives u ps prev s = None \<Longrightarrow> p \<in> set ps \<Longrightarrow> \<not> alternative_ok u prev s p"
  by (induction ps) (auto simp: alternative_ok_def split: if_splits)

lemma ignorecase_letter_word:
  assumes "folds_to_word_chars u" and "ascii_letter p" and "ignorecase_eq u p c"
  shows "word_char u c"
proof (cases "is_ascii c")
  case True
  from assms(2) have "is_ascii p" by (auto simp: ascii_letter_def is_ascii_def)
  with True assms(3) have "ascii_lower p = ascii_lower c" by (simp add: ignorecase_eq_def)
  with assms(2) have "ascii_letter c"
    by (auto simp: ascii_lower_def ascii_capital_def ascii_letter_def split: if_splits)
  with True show ?thesis by (simp add: word_char_def)
next
  case False
  with assms(3) have "fold_beyond u p c" by (simp add: ignorecase_eq_def)
  with assms(1,2) False have "word_beyond u c" by (auto simp: folds_to_word_chars_def)
  with False show ?thesis by (simp add: word_char_def)
qed

lemma pronouns_letters: "p \<in> set pronouns \<Longrightarrow> p \<noteq> [] \<and> list_all ascii_letter p"
proof -
  have "list_all (\<lambda>p. p \<noteq> [] \<and> list_all ascii_letter p) pronouns"
    by code_simp
  then show "p \<in> set pronouns \<Longrightarrow> p \<noteq> [] \<and> list_all ascii_letter p"
    by (simp add: list_all_iff)
qed

lemma list_all2_transfer:
  "list_all2 R xs ys \<Longrightarrow> list_all A xs \<Longrightarrow> (\<And>x y. A x \<Longrightarrow> R x y \<Longrightarrow> B y) \<Longrightarrow> list_all B ys"
  by (induction rule: list_all2_induct) auto

lemma matched_letters:
  assumes "folds_to_word_chars u" and "p \<in> set pronouns" and "match_literal u p s"
  shows "list_all (word_char u) (take (length p) s)"
proof -
  from assms(3) have "list_all2 (ignorecase_eq u) p (take (length p) s)"
    by (simp add: match_literal_def)
  moreover from assms(2) have "list_all ascii_letter p"
    using pronouns_letters by blast
  ultimately show ?thesis
    using ignorecase_letter_word [OF assms(1)] by (rule list_all2_transfer)
qed


lemma first_char_drop: "first_char (drop n s) = (if n < length s then Some (s ! n) else None)"
proof (cases "n < length s")
  case True
  then have "drop n s = s ! n # drop (Suc n) s"
    by (simp add: Cons_nth_drop_Suc)
  with True show ?thesis by (simp add: first_char_def)
next
  case False
  then show ?thesis by (simp add: first_char_def)
qed

lemma alternative_boundaries:
  assumes fw: "folds_to_word_chars u" and p: "p \<in> set pronouns" and m: "match_literal u p s"
  shows "word_boundary u prev (first_char s) = (\<not> case_option False (word_char u) prev)"
    and "word_boundary u (if p = [] then prev else Some (last (take (length p) s)))
           (first_char (drop (length p) s)) =
         (length p = length s \<or> \<not> word_char u (s ! length p))"
proof -
  from p have ne: "p \<noteq> []" using pronouns_letters by blast
  from m have len: "length p \<le> length s" by (simp add: match_literal_def)
  from ne len have tne: "take (length p) s \<noteq> []" by auto
  have all: "list_all (word_char u) (take (length p) s)"
    using matched_letters [OF fw p m] .
  from tne obtain c cs where s: "s = c # cs" by (cases s) auto
  with ne have "c \<in> set (take (length p) s)" by (cases p) auto
  with all have "word_char u c" by (simp add: list_all_iff)
  with s show "word_boundary u prev (first_char s) = (\<not> case_option False (word_char u) prev)"
    by (simp add: word_boundary_def first_char_def)
  from tne have "last (take (length p) s) \<in> set (take (length p) s)" by (rule last_in_set)
  with all have "word_char u (last (take (length p) s))" by (simp add: list_all_iff)
  with ne len show "word_boundary u (if p = [] then prev else Some (last (take (length p) s)))
           (first_char (drop (length p) s)) =
         (length p = length s \<or> \<not> word_char u (s ! length p))"
    by (auto simp: word_boundary_def first_char_drop)
qed

lemma whole_word_after_0:
  assumes "folds_to_word_chars u" and "p \<in> set pronouns"
  shows "whole_word_after u prev s 0 p = (word_boundary u prev (first_char s) \<and> alternative_ok u prev s p)"
proof (cases "match_literal u p s")
  case True
  from alternative_boundaries [OF assms True, of prev] True show ?thesis
    by (simp add: whole_word_after_def alternative_ok_def match_literal_def)
next
  case False
  then show ?thesis
    by (auto simp: whole_word_after_def alternative_ok_def match_literal_def)
qed

lemma match_here_Some:
  assumes fw: "folds_to_word_chars u" and "match_here u prev s = Some n"
  shows "list_ex (whole_word_after u prev s 0) pronouns \<and> 0 < n \<and> n \<le> length s \<and>
    list_all (word_char u) (take n s)"
proof -
  from assms have b: "word_boundary u prev (first_char s)"
    and "match_alternatives u pronouns prev s = Some n"
    by (simp_all add: match_here_def split: if_splits)
  from match_alternatives_Some [OF this(2)] obtain p
    where p: "p \<in> set pronouns" and n: "n = length p" and ok: "alternative_ok u prev s p"
    by blast
  from ok have m: "match_literal u p s" by (simp add: alternative_ok_def)
  have "whole_word_after u prev s 0 p"
    using whole_word_after_0 [OF fw p] b ok by simp
  with p have "list_ex (whole_word_after u prev s 0) pronouns"
    by (auto simp: list_ex_iff)
  moreover from p have "0 < n" using pronouns_letters [of p] by (simp add: n)
  moreover from m have "n \<le> length s" by (simp add: match_literal_def n)
  moreover have "list_all (word_char u) (take n s)"
    using matched_letters [OF fw p m] by (simp add: n)
  ultimately show ?thesis by simp
qed

lemma match_here_None:
  assumes fw: "folds_to_word_chars u" and "match_here u prev s = None"
  shows "\<not> list_ex (whole_word_after u prev s 0) pronouns"
proof
  assume "list_ex (whole_word_after u prev s 0) pronouns"
  then obtain p where p: "p \<in> set pronouns" and w: "whole_word_after u prev s 0 p"
    by (auto simp: list_ex_iff)
  from w have b: "word_boundary u prev (first_char s)" and ok: "alternative_ok u prev s p"
    using whole_word_after_0 [OF fw p] by simp_all
  from assms b have "match_alternatives u pronouns prev s = None"
    by (simp add: match_here_def)
  from match_alternatives_None [OF this p] ok show False by simp
qed

lemma findall_scan_skip:
  "case_option False (word_char u) prev \<Longrightarrow> k \<le> length s \<Longrightarrow> list_all (word_char u) (take k s) \<Longrightarrow>
   findall_scan u k prev s = findall_scan u 0 prev s"
proof (induction k arbitrary: prev s)
  case 0
  show ?case by simp
next
  case (Suc k)
  then obtain c cs where s: "s = c # cs" by (cases s) auto
  with Suc.prems have c: "word_char u c" and k: "k \<le> length cs"
    and rest: "list_all (word_char u) (take k cs)"
    by simp_all
  have "findall_scan u (Suc k) prev s = findall_scan u 0 (Some c) cs"
    using Suc.IH [of "Some c" cs] c k rest by (simp add: s)
  moreover have "match_here u prev (c # cs) = None"
    using Suc.prems(1) c by (simp add: match_here_def word_boundary_def first_char_def)
  ultimately show ?case by (simp add: s)
qed

lemma findall_scan_positions:
  "folds_to_word_chars u \<Longrightarrow>
   length (findall_scan u 0 prev s) = length (positions_after u prev s)"
proof (induction s arbitrary: prev)
  case Nil
  show ?case by (simp add: positions_after_def)
next
  case (Cons c cs)
  show ?case
  proof (cases "match_here u prev (c # cs)")
    case None
    from match_here_None [OF Cons.prems None] show ?thesis
      by (simp add: None positions_after_Cons Cons.IH [OF Cons.prems])
  next
    case (Some n)
    from match_here_Some [OF Cons.prems Some]
    have ex: "list_ex (whole_word_after u prev (c # cs) 0) pronouns" and n: "0 < n" "n \<le> length (c # cs)"
      and all: "list_all (word_char u) (take n (c # cs))"
      by simp_all
    from n obtain k where k: "n = Suc k" by (cases n) auto
    with n all have "word_char u c" "k \<le> length cs" "list_all (word_char u) (take k cs)"
      by simp_all
    then have "findall_scan u k (Some c) cs = findall_scan u 0 (Some c) cs"
      using findall_scan_skip [of u "Some c" k cs] by simp
    with ex show ?thesis
      by (simp add: Some k positions_after_Cons Cons.IH [OF Cons.prems])
  qed
qed

lemma findall_pronouns_positions:
  "folds_to_word_chars u \<Longrightarrow>
   length (findall_pronouns u s) = length (pronoun_positions u s)"
  by (simp add: findall_pronouns_def findall_scan_positions positions_after_None)


section \<open>Readability\<close>





section \<open>The pronoun count of a record\<close>

lemma sample_folds_to_word_chars: "folds_to_word_chars sample_unicode"
  by (simp add: folds_to_word_chars_def sample_unicode_def)

text \<open>
  C9. The pronoun count of a record is the number of matches of the regular expression
  in the text given to the analysis, and that is the number of positions of the text at
  which one of I, we, my, ours, us stands as a whole word, in any case. It is counted
  on the text, not on the alphabetic word tokens. For the text "I love this and we love
  that", with "love" the only positive word and no negative word, the matches are "I"
  and "we", the positive score is 2 and the pronoun count is 2.
\<close>

theorem personal_pronouns_whole_text:
  "analyze_locals u sent_tokenize word_tokenize d text positive_words negative_words = Inr (Some a) \<Longrightarrow>
   personal_pronouns a = int (length (findall_pronouns u text)) \<and>
   PERSONAL_PRONOUNS (build_record a) = int (length (findall_pronouns u text)) \<and>
   (folds_to_word_chars u \<longrightarrow>
      length (findall_pronouns u text) = length (pronoun_positions u text) \<and>
      PERSONAL_PRONOUNS (build_record a) = int (length (pronoun_positions u text))) \<and>
   (text = str_of ''I love this and we love that'' \<and>
    word_tokenize text = map str_of [''I'', ''love'', ''this'', ''and'', ''we'', ''love'', ''that''] \<and>
    positive_words = {str_of ''love''} \<and> negative_words = {} \<longrightarrow>
      findall_pronouns u text = map str_of [''I'', ''we''] \<and>
      POSITIVE_SCORE (build_record a) = 2 \<and> PERSONAL_PRONOUNS (build_record a) = 2)"
proof -
  assume run: "analyze_locals u sent_tokenize word_tokenize d text positive_words negative_words = Inr (Some a)"
  note f = analyze_locals_fields [OF run]
  have pp: "personal_pronouns a = int (length (findall_pronouns u text))"
    using f by simp
  have found: "findall_pronouns u (str_of ''I love this and we love that'') = map str_of [''I'', ''we'']"
    by (simp add: findall_pronouns_def match_here_def pronouns_def word_boundary_def
        first_char_def match_literal_def ignorecase_eq_def word_char_def str_of_def is_ascii_def
        ascii_lower_def ascii_capital_def ascii_letter_def)
  have clean: "filter (isalpha u) (map str_of [''I'', ''love'', ''this'', ''and'', ''we'', ''love'', ''that'']) =
      map str_of [''I'', ''love'', ''this'', ''and'', ''we'', ''love'', ''that'']"
    by (simp add: isalpha_def isalpha_char_def str_of_def is_ascii_def ascii_letter_def)
  have loop: "sentiment_loop u (map str_of [''I'', ''love'', ''this'', ''and'', ''we'', ''love'', ''that''])
      {str_of ''love''} {} 0 0 = (2, 0)"
    by (simp add: lower_def str_of_def is_ascii_def ascii_lower_def ascii_capital_def)
  have "positive_count a = 2"
    if "word_tokenize text = map str_of [''I'', ''love'', ''this'', ''and'', ''we'', ''love'', ''that'']"
      "positive_words = {str_of ''love''}" "negative_words = {}"
    using f that by (simp only: clean loop prod.inject)
  then show ?thesis
    using pp found
    by (auto simp: build_record_def findall_pronouns_positions)
qed

theorem personal_pronouns_whole_text_witness:
  "folds_to_word_chars sample_unicode \<and>
   analyze_article_text sample_unicode plain_sent_tokenize plain_word_tokenize Map.empty
     (str_of ''I love this and we love that'') {str_of ''love''} {} =
   Inr (Some \<lparr>POSITIVE_SCORE = 2, NEGATIVE_SCORE = 0, POLARITY_SCORE = 1,
     SUBJECTIVITY_SCORE = 286 / 1000, AVG_SENTENCE_LENGTH = 7,
     PERCENTAGE_OF_COMPLEX_WORDS = 0, FOG_INDEX = 28 / 10,
     AVG_NUMBER_OF_WORDS_PER_SENTENCE = 7, COMPLEX_WORD_COUNT = 0,
     WORD_COUNT = 7, SYLLABLE_PER_WORD = 1286 / 1000,
     PERSONAL_PRONOUNS = 2, AVG_WORD_LENGTH = 3143 / 1000\<rparr>) \<and>
   filter (isalpha sample_unicode)
     (plain_word_tokenize (str_of ''my-self et J'' @ [233] @ str_of ''r'' @ [233] @ str_of ''my'')) =
     [str_of ''et'', str_of ''J'' @ [233] @ str_of ''r'' @ [233] @ str_of ''my''] \<and>
   pronoun_positions sample_unicode
     (str_of ''my-self et J'' @ [233] @ str_of ''r'' @ [233] @ str_of ''my'') = [0] \<and>
   analyze_article_text sample_unicode plain_sent_tokenize plain_word_tokenize Map.empty
     (str_of ''my-self et J'' @ [233] @ str_of ''r'' @ [233] @ str_of ''my'') {str_of ''love''} {} =
   Inr (Some \<lparr>POSITIVE_SCORE = 0, NEGATIVE_SCORE = 0, POLARITY_SCORE = 0,
     SUBJECTIVITY_SCORE = 0, AVG_SENTENCE_LENGTH = 2,
     PERCENTAGE_OF_COMPLEX_WORDS = 0, FOG_INDEX = 8 / 10,
     AVG_NUMBER_OF_WORDS_PER_SENTENCE = 2, COMPLEX_WORD_COUNT = 0,
     WORD_COUNT = 2, SYLLABLE_PER_WORD = 1, PERSONAL_PRONOUNS = 1,
     AVG_WORD_LENGTH = 4\<rparr>)"
proof -
  let ?t = "str_of ''my-self et J'' @ [233] @ str_of ''r'' @ [233] @ str_of ''my''"
  define a where "a = \<lparr>word_count = 7, sentence_count = 1, positive_count = 2, negative_count = 0,
    polarity = 1, subjectivity = 2 / 7, avg_sentence_length = 7, complex_word_count = 0,
    total_syllables = 9, percentage_complex = 0, fog_index = 28 / 10,
    avg_syllables_per_word = 9 / 7, personal_pronouns = 2, avg_word_length = 22 / 7\<rparr>"
  define b where "b = \<lparr>word_count = 2, sentence_count = 1, positive_count = 0, negative_count = 0,
    polarity = 0, subjectivity = 0, avg_sentence_length = 2, complex_word_count = 0,
    total_syllables = 2, percentage_complex = 0, fog_index = 8 / 10,
    avg_syllables_per_word = 1, personal_pronouns = 1, avg_word_length = 4\<rparr>"
  have "analyze_locals sample_unicode plain_sent_tokenize plain_word_tokenize Map.empty
      (str_of ''I love this and we love that'') {str_of ''love''} {} =
      Inr (Some \<lparr>word_count = 7, sentence_count = 1, positive_count = 2, negative_count = 0,
    polarity = 1, subjectivity = 2 / 7, avg_sentence_length = 7, complex_word_count = 0,
    total_syllables = 9, percentage_complex = 0, fog_index = 28 / 10,
    avg_syllables_per_word = 9 / 7, personal_pronouns = 2, avg_word_length = 22 / 7\<rparr>)"
    by code_simp
  then have run_a: "analyze_locals sample_unicode plain_sent_tokenize plain_word_tokenize Map.empty
      (str_of ''I love this and we love that'') {str_of ''love''} {} = Inr (Some a)"
    by (simp only: a_def)
  have "analyze_locals sample_unicode plain_sent_tokenize plain_word_tokenize Map.empty
      ?t {str_of ''love''} {} =
      Inr (Some \<lparr>word_count = 2, sentence_count = 1, positive_count = 0, negative_count = 0,
    polarity = 0, subjectivity = 0, avg_sentence_length = 2, complex_word_count = 0,
    total_syllables = 2, percentage_complex = 0, fog_index = 8 / 10,
    avg_syllables_per_word = 1, personal_pronouns = 1, avg_word_length = 4\<rparr>)"
    by code_simp
  then have run_b: "analyze_locals sample_unicode plain_sent_tokenize plain_word_tokenize Map.empty
      ?t {str_of ''love''} {} = Inr (Some b)"
    by (simp only: b_def)
  have tok: "plain_word_tokenize (str_of ''I love this and we love that'') =
      map str_of [''I'', ''love'', ''this'', ''and'', ''we'', ''love'', ''that'']"
    by code_simp
  have clean_b: "filter (isalpha sample_unicode) (plain_word_tokenize ?t) =
      [str_of ''et'', str_of ''J'' @ [233] @ str_of ''r'' @ [233] @ str_of ''my'']"
    by code_simp
  have pos_b: "pronoun_positions sample_unicode ?t = [0]"
    by code_simp
  note fw = sample_folds_to_word_chars
  from personal_pronouns_whole_text [OF run_a] tok
  have pa: "POSITIVE_SCORE (build_record a) = 2 \<and> PERSONAL_PRONOUNS (build_record a) = 2"
    by blast
  from personal_pronouns_whole_text [OF run_b] fw
  have "PERSONAL_PRONOUNS (build_record b) = int (length (pronoun_positions sample_unicode ?t))"
    by blast
  then have pb: "PERSONAL_PRONOUNS (build_record b) = 1"
    by (simp only: pos_b) simp
  have r1: "round3 1 = 1" using round3_int [of 1] by simp
  have r0: "round3 0 = 0" using round3_int [of 0] by simp
  have r2: "round3 2 = 2" using round3_int [of 2] by simp
  have r4: "round3 4 = 4" using round3_int [of 4] by simp
  have r7: "round3 7 = 7" using round3_int [of 7] by simp
  have r27: "round3 (2 / 7) = 143 / 500" by (simp add: round3_def round_half_even_def)
  have r97: "round3 (9 / 7) = 643 / 500" by (simp add: round3_def round_half_even_def)
  have r227: "round3 (22 / 7) = 3143 / 1000" by (simp add: round3_def round_half_even_def)
  have r145: "round3 (14 / 5) = 14 / 5" by (simp add: round3_def round_half_even_def)
  have r45: "round3 (4 / 5) = 4 / 5" by (simp add: round3_def round_half_even_def)
  have rec_a: "build_record a = \<lparr>POSITIVE_SCORE = 2, NEGATIVE_SCORE = 0, POLARITY_SCORE = 1,
     SUBJECTIVITY_SCORE = 286 / 1000, AVG_SENTENCE_LENGTH = 7,
     PERCENTAGE_OF_COMPLEX_WORDS = 0, FOG_INDEX = 28 / 10,
     AVG_NUMBER_OF_WORDS_PER_SENTENCE = 7, COMPLEX_WORD_COUNT = 0,
     WORD_COUNT = 7, SYLLABLE_PER_WORD = 1286 / 1000,
     PERSONAL_PRONOUNS = 2, AVG_WORD_LENGTH = 3143 / 1000\<rparr>"
    using pa by (simp add: build_record_def a_def r1 r0 r7 r27 r97 r227 r145)
  have rec_b: "build_record b = \<lparr>POSITIVE_SCORE = 0, NEGATIVE_SCORE = 0, POLARITY_SCORE = 0,
     SUBJECTIVITY_SCORE = 0, AVG_SENTENCE_LENGTH = 2,
     PERCENTAGE_OF_COMPLEX_WORDS = 0, FOG_INDEX = 8 / 10,
     AVG_NUMBER_OF_WORDS_PER_SENTENCE = 2, COMPLEX_WORD_COUNT = 0,
     WORD_COUNT = 2, SYLLABLE_PER_WORD = 1, PERSONAL_PRONOUNS = 1,
     AVG_WORD_LENGTH = 4\<rparr>"
    using pb by (simp add: build_record_def b_def r1 r0 r2 r4 r45)
  have "analyze_article_text sample_unicode plain_sent_tokenize plain_word_tokenize Map.empty
      (str_of ''I love this and we love that'') {str_of ''love''} {} = Inr (Some (build_record a))"
    using run_a by (rule analyze_article_text_locals)
  moreover have "analyze_article_text sample_unicode plain_sent_tokenize plain_word_tokenize
      Map.empty ?t {str_of ''love''} {} = Inr (Some (build_record b))"
    using run_b by (rule analyze_article_text_locals)
  ultimately show ?thesis
    using fw clean_b pos_b by (simp only: rec_a rec_b simp_thms)
qed


end
